theory Spec2Isabelle
  imports Main "HOL-Library.Sublist"
begin

section \<open>Qt string and byte-array primitives used by GitRepoLoader.cpp\<close>

text \<open>
  \<^verbatim>\<open>QString\<close> and \<^verbatim>\<open>QByteArray\<close> are modelled as \<^typ>\<open>string\<close> (a list of
  characters). The functions below follow the documented behaviour of the Qt 5 members
  of the same name that the loader calls; they are library code, not code of the
  repository. Positions past the end give the empty string, as in Qt.
\<close>

definition startsWith :: "string \<Rightarrow> string \<Rightarrow> bool" where
  "startsWith s p = (take (length p) s = p)"

definition endsWith :: "string \<Rightarrow> string \<Rightarrow> bool" where
  "endsWith s p = (length p \<le> length s \<and> drop (length s - length p) s = p)"

text \<open>\<^verbatim>\<open>QString::contains(p)\<close>: \<open>p\<close> occurs at some position of \<open>s\<close>.\<close>

fun contains :: "string \<Rightarrow> string \<Rightarrow> bool" where
  "contains [] p = (p = [])"
| "contains (c # cs) p = (startsWith (c # cs) p \<or> contains cs p)"

text \<open>\<^verbatim>\<open>QString::left(n)\<close>, \<^verbatim>\<open>QString::mid(pos)\<close> and \<^verbatim>\<open>QString::mid(pos, n)\<close>.\<close>

definition left :: "string \<Rightarrow> nat \<Rightarrow> string" where
  "left s n = take n s"

definition mid :: "string \<Rightarrow> nat \<Rightarrow> string" where
  "mid s pos = drop pos s"

definition mid_n :: "string \<Rightarrow> nat \<Rightarrow> nat \<Rightarrow> string" where
  "mid_n s pos n = take n (drop pos s)"

text \<open>
  \<^verbatim>\<open>QString::remove(const QString &)\<close> removes every occurrence of the needle: Qt
  searches from the left, deletes the occurrence found and goes on searching at the
  same position, so the characters before an occurrence are never looked at again.
\<close>

fun remove_str :: "string \<Rightarrow> string \<Rightarrow> string" where
  "remove_str [] needle = []"
| "remove_str (c # cs) needle =
     (if needle \<noteq> [] \<and> startsWith (c # cs) needle
      then remove_str (drop (length needle) (c # cs)) needle
      else c # remove_str cs needle)"

text \<open>\<^verbatim>\<open>QString::replace(QChar c, "")\<close>: every \<open>c\<close> is deleted.\<close>

definition replace_empty :: "char \<Rightarrow> string \<Rightarrow> string" where
  "replace_empty c s = filter (\<lambda>x. x \<noteq> c) s"

text \<open>
  \<^verbatim>\<open>QByteArray::split(sep)\<close> and \<^verbatim>\<open>QString::split(sep)\<close> (keeping empty parts): the
  parts between the separators, in order; \<open>n\<close> separators give \<open>n + 1\<close> parts, so the
  result is never empty, and the empty input gives one empty part.
\<close>

fun split_char :: "char \<Rightarrow> string \<Rightarrow> string list" where
  "split_char sep [] = [[]]"
| "split_char sep (c # cs) =
     (if c = sep then [] # split_char sep cs
      else (case split_char sep cs of
              [] \<Rightarrow> [[c]]
            | p # ps \<Rightarrow> (c # p) # ps))"

text \<open>\<^verbatim>\<open>QString::split(sep, QString::SkipEmptyParts)\<close>: the empty parts are dropped.\<close>

definition split_skip_empty :: "char \<Rightarrow> string \<Rightarrow> string list" where
  "split_skip_empty sep s = filter (\<lambda>p. p \<noteq> []) (split_char sep s)"

text \<open>
  \<^verbatim>\<open>QString::trimmed()\<close>: whitespace removed from both ends. The whitespace
  characters of the 8-bit range are space, \<open>\t\<close>, \<open>\n\<close>, \<open>\v\<close>, \<open>\f\<close> and \<open>\r\<close>.
\<close>

definition isSpace :: "char \<Rightarrow> bool" where
  "isSpace c = (c = CHR '' '' \<or> c = CHR 0x09 \<or> c = CHR 0x0A \<or> c = CHR 0x0B
                \<or> c = CHR 0x0C \<or> c = CHR 0x0D)"

definition trimmed :: "string \<Rightarrow> string" where
  "trimmed s = rev (dropWhile isSpace (rev (dropWhile isSpace s)))"

text \<open>
  \<^verbatim>\<open>QString::toUInt()\<close> in base 10: the value of a string that, once trimmed, is a
  non-empty run of decimal digits denoting a number below \<open>2^32\<close>; 0 when the
  conversion fails. (A leading sign is not modelled; no output the loader is specified
  on carries one.)
\<close>

definition isDigit :: "char \<Rightarrow> bool" where
  "isDigit c = (c \<in> set ''0123456789'')"

definition digitValue :: "char \<Rightarrow> nat" where
  "digitValue c = of_char c - (48::nat)"

definition decimalValue :: "string \<Rightarrow> nat" where
  "decimalValue s = foldl (\<lambda>acc c. 10 * acc + digitValue c) 0 s"

definition toUInt :: "string \<Rightarrow> nat" where
  "toUInt s =
     (let t = trimmed s in
      if t \<noteq> [] \<and> list_all isDigit t \<and> decimalValue t < 2 ^ 32 then decimalValue t
      else 0)"

section \<open>The collaborators of the loader\<close>

text \<open>\<^verbatim>\<open>GitExecResult\<close>: what \<^verbatim>\<open>GitBase::run\<close> returns (\<open>output'\<close> is its member \<^verbatim>\<open>output\<close>).\<close>

record GitExecResult =
  success :: bool
  output' :: string

text \<open>
  The repository snapshot: everything the loader asks of its collaborators, whose code
  is not in \<^verbatim>\<open>GitRepoLoader.cpp\<close>, as a parameter. \<open>run\<close> is \<^verbatim>\<open>GitBase::run\<close> (the result
  of a command line), \<open>fileExists\<close> is \<^verbatim>\<open>QFile::exists\<close>, \<open>absolutePath\<close> is
  \<^verbatim>\<open>QDir(path).absolutePath()\<close>, \<open>headBranch\<close> is the branch name
  \<^verbatim>\<open>GitBase::updateCurrentBranch\<close> stores, \<open>getLastCommit\<close> is
  \<^verbatim>\<open>GitBase::getLastCommit\<close>, \<open>getDistanceBetweenBranches\<close> is the member of
  \<^verbatim>\<open>GitBranches\<close>, \<open>commitInfo\<close> is the constructor \<^verbatim>\<open>CommitInfo(QByteArray)\<close> and
  \<open>isValid\<close> is \<^verbatim>\<open>CommitInfo::isValid\<close>. The type \<open>'ci\<close> stands for \<^verbatim>\<open>CommitInfo\<close>.
\<close>

record 'ci GitEnv =
  run :: "string \<Rightarrow> GitExecResult"
  fileExists :: "string \<Rightarrow> bool"
  absolutePath :: "string \<Rightarrow> string"
  headBranch :: string
  getLastCommit :: GitExecResult
  getDistanceBetweenBranches :: "bool \<Rightarrow> string \<Rightarrow> GitExecResult"
  commitInfo :: "string \<Rightarrow> 'ci"
  isValid :: "'ci \<Rightarrow> bool"

datatype ReferenceType = Tag | LocalBranch | RemoteBranches

text \<open>
  Modelled from the spec: \<^verbatim>\<open>RevisionsCache::LocalBranchDistances\<close> is declared in
  \<^verbatim>\<open>RevisionsCache.h\<close>, which is not among the source files. The spec gives four
  non-negative integers that default to 0.
\<close>

record LocalBranchDistances =
  aheadMaster :: nat
  behindMaster :: nat
  aheadOrigin :: nat
  behindOrigin :: nat

definition defaultDistances :: LocalBranchDistances where
  "defaultDistances = \<lparr>aheadMaster = 0, behindMaster = 0, aheadOrigin = 0, behindOrigin = 0\<rparr>"

text \<open>The calls the loader makes into \<^verbatim>\<open>RevisionsCache\<close>, with their arguments.\<close>

datatype 'ci CacheCall =
    CacheClear
  | CacheConfigure nat
  | InsertCommitInfo 'ci nat
  | InsertReference string ReferenceType string
  | InsertLocalBranchDistances string LocalBranchDistances
  | SetUntrackedFilesList "string list"
  | UpdateWipCommit string string string

text \<open>
  Modelled from the spec: the class \<^verbatim>\<open>RevisionsCache\<close> is not among the source files.
  The spec describes it as the commit records ordered by their sequence index, the
  pending-changes record, the references and the local-branch distances, all emptied by
  \<^verbatim>\<open>clear()\<close>. The model keeps what the loader has stored since the last \<^verbatim>\<open>clear()\<close>,
  in the order of the calls, each record with the sequence index it was given.
\<close>

record 'ci RevisionsCache =
  configuredTotal :: nat
  commitRecords :: "(nat \<times> 'ci) list"
  wipCommit :: "(string \<times> string \<times> string) option"
  untrackedFiles :: "string list"
  references :: "(string \<times> ReferenceType \<times> string) list"
  distances :: "(string \<times> LocalBranchDistances) list"

definition emptyCache :: "'ci RevisionsCache" where
  "emptyCache = \<lparr>configuredTotal = 0, commitRecords = [], wipCommit = None, untrackedFiles = [],
                  references = [], distances = []\<rparr>"

fun applyCall :: "'ci CacheCall \<Rightarrow> 'ci RevisionsCache \<Rightarrow> 'ci RevisionsCache" where
  "applyCall CacheClear c = emptyCache"
| "applyCall (CacheConfigure n) c = c\<lparr>configuredTotal := n\<rparr>"
| "applyCall (InsertCommitInfo revision idx) c = c\<lparr>commitRecords := commitRecords c @ [(idx, revision)]\<rparr>"
| "applyCall (InsertReference sha ty name) c =
     c\<lparr>references := references c @ [(sha, ty, name)]\<rparr>"
| "applyCall (InsertLocalBranchDistances name d) c =
     c\<lparr>distances := distances c @ [(name, d)]\<rparr>"
| "applyCall (SetUntrackedFilesList fs) c = c\<lparr>untrackedFiles := fs\<rparr>"
| "applyCall (UpdateWipCommit parentSha diffIndex diffIndexCached) c =
     c\<lparr>wipCommit := Some (parentSha, diffIndex, diffIndexCached)\<rparr>"

section \<open>The loader's state and its observable actions\<close>

datatype Signal = LoadingStarted nat | LoadingStep nat | LoadingFinished

text \<open>
  Everything the loader does to the outside, in the order it does it: calls into the
  cache, synchronous commands (\<open>Run\<close>), the asynchronous log request (\<open>Request\<close>), the
  other queries of \<^verbatim>\<open>GitBase\<close> and \<^verbatim>\<open>GitBranches\<close>, emitted signals, and writes of
  \<^verbatim>\<open>mLocked\<close>. Log messages are left out.
\<close>

datatype 'ci Action =
    Cache "'ci CacheCall"
  | Run string
  | Request string
  | LastCommit
  | DistanceBetweenBranches bool string
  | UpdateCurrentBranch
  | Emit Signal
  | Locked bool

text \<open>
  \<^verbatim>\<open>mGitBase\<close> holds the working directory and the current branch; \<open>trace\<close> is the
  history of the loader's actions (it is not a member of the class).
\<close>

record GitBase =
  workingDir :: string
  currentBranch :: string

record 'ci GitRepoLoader =
  mLocked :: bool
  mShowAll :: bool
  mGitBase :: GitBase
  mRevCache :: "'ci RevisionsCache"
  trace :: "'ci Action list"

text \<open>The accessors of \<^verbatim>\<open>GitBase\<close> that the loader calls.\<close>

definition getWorkingDir :: "'ci GitRepoLoader \<Rightarrow> string" where
  "getWorkingDir s = workingDir (mGitBase s)"

definition setWorkingDir :: "string \<Rightarrow> 'ci GitRepoLoader \<Rightarrow> 'ci GitRepoLoader" where
  "setWorkingDir d s = s\<lparr>mGitBase := (mGitBase s)\<lparr>workingDir := d\<rparr>\<rparr>"

definition getCurrentBranch :: "'ci GitRepoLoader \<Rightarrow> string" where
  "getCurrentBranch s = currentBranch (mGitBase s)"

text \<open>
  Each of the loader's steps appends its action to the history: a call into the cache
  (which also changes the cache), an emitted signal, a write of \<^verbatim>\<open>mLocked\<close>, a
  synchronous command (which also returns the result the snapshot gives for it), and
  \<^verbatim>\<open>GitBase::updateCurrentBranch\<close>.
\<close>

definition record_action :: "'ci Action \<Rightarrow> 'ci GitRepoLoader \<Rightarrow> 'ci GitRepoLoader" where
  "record_action a s = s\<lparr>trace := trace s @ [a]\<rparr>"

definition cacheCall :: "'ci CacheCall \<Rightarrow> 'ci GitRepoLoader \<Rightarrow> 'ci GitRepoLoader" where
  "cacheCall c s = record_action (Cache c) (s\<lparr>mRevCache := applyCall c (mRevCache s)\<rparr>)"

definition emit :: "Signal \<Rightarrow> 'ci GitRepoLoader \<Rightarrow> 'ci GitRepoLoader" where
  "emit sg s = record_action (Emit sg) s"

definition setLocked :: "bool \<Rightarrow> 'ci GitRepoLoader \<Rightarrow> 'ci GitRepoLoader" where
  "setLocked b s = record_action (Locked b) (s\<lparr>mLocked := b\<rparr>)"

definition gitRun ::
  "'ci GitEnv \<Rightarrow> string \<Rightarrow> 'ci GitRepoLoader \<Rightarrow> GitExecResult \<times> 'ci GitRepoLoader" where
  "gitRun env cmd s = (run env cmd, record_action (Run cmd) s)"

definition updateCurrentBranch :: "'ci GitEnv \<Rightarrow> 'ci GitRepoLoader \<Rightarrow> 'ci GitRepoLoader" where
  "updateCurrentBranch env s =
     record_action UpdateCurrentBranch
       (s\<lparr>mGitBase := (mGitBase s)\<lparr>currentBranch := headBranch env\<rparr>\<rparr>)"

section \<open>GitRepoLoader.cpp\<close>

definition GIT_LOG_FORMAT :: string where
  "GIT_LOG_FORMAT = ''%m%HX%P%n%cn<%ce>%n%an<%ae>%n%at%n%s%n%b ''"

text \<open>
  \<^verbatim>\<open>requestRevisions\<close>: the log command is handed to a \<^verbatim>\<open>GitRequestorProcess\<close>; its
  output arrives later, as the argument of \<open>processRevision\<close>.
\<close>

definition requestRevisions :: "'ci GitRepoLoader \<Rightarrow> 'ci GitRepoLoader" where
  "requestRevisions s =
     (let baseCmd =
            ''git log --date-order --no-color --log-size --parents --boundary -z --pretty=format:''
            @ GIT_LOG_FORMAT
            @ (if mShowAll s then ''--all'' else getCurrentBranch s)
      in record_action (Request baseCmd) s)"

definition configureRepoDirectory ::
  "'ci GitEnv \<Rightarrow> 'ci GitRepoLoader \<Rightarrow> bool \<times> 'ci GitRepoLoader" where
  "configureRepoDirectory env s =
     (let (ret, s1) = gitRun env ''git rev-parse --show-cdup'' s in
      if success ret then
        (True,
         setWorkingDir (absolutePath env (getWorkingDir s1 @ ''/'' @ trimmed (output' ret))) s1)
      else (False, s1))"

definition loadRepository :: "'ci GitEnv \<Rightarrow> 'ci GitRepoLoader \<Rightarrow> bool \<times> 'ci GitRepoLoader" where
  "loadRepository env s =
     (if mLocked s then (False, s)
      else if getWorkingDir s = [] then (False, s)
      else
        (let s1 = cacheCall CacheClear s;
             s2 = setLocked True s1;
             (ok, s3) = configureRepoDirectory env s2
         in if ok then (True, requestRevisions (updateCurrentBranch env s3))
            else (False, s3)))"

text \<open>
  \<^verbatim>\<open>getUntrackedFiles\<close>, lines 238 to 245: the command line. \<^verbatim>\<open>QString::arg\<close> puts its
  argument in the place of \<^verbatim>\<open>%1\<close>.
\<close>

definition untrackedFilesCommand :: "'ci GitEnv \<Rightarrow> 'ci GitRepoLoader \<Rightarrow> string" where
  "untrackedFilesCommand env s =
     (let runCmd = ''git ls-files --others'';
          exFile = ''.git/info/exclude'';
          path = getWorkingDir s @ ''/'' @ exFile;
          runCmd = (if fileExists env path then runCmd @ '' --exclude-from=$'' @ exFile @ ''$''
                    else runCmd)
      in runCmd @ '' --exclude-per-directory=$'' @ ''.gitignore'' @ ''$'')"

definition getUntrackedFiles ::
  "'ci GitEnv \<Rightarrow> 'ci GitRepoLoader \<Rightarrow> string list \<times> 'ci GitRepoLoader" where
  "getUntrackedFiles env s =
     (let (ret, s1) = gitRun env (untrackedFilesCommand env s) s
      in (split_skip_empty (CHR 0x0A) (output' ret), s1))"

definition updateWipRevision :: "'ci GitEnv \<Rightarrow> 'ci GitRepoLoader \<Rightarrow> 'ci GitRepoLoader" where
  "updateWipRevision env s =
     (let (files, s1) = getUntrackedFiles env s;
          s2 = cacheCall (SetUntrackedFilesList files) s1;
          (ret, s3) = gitRun env ''git rev-parse --revs-only HEAD'' s2
      in if success ret then
           (let parentSha = trimmed (output' ret);
                (ret3, s4) = gitRun env (''git diff-index '' @ parentSha) s3;
                diffIndex = (if success ret3 then output' ret3 else []);
                (ret4, s5) = gitRun env (''git diff-index --cached '' @ parentSha) s4;
                diffIndexCached = (if success ret4 then output' ret4 else [])
            in cacheCall (UpdateWipCommit parentSha diffIndex diffIndexCached) s5)
         else s3)"

text \<open>
  \<^verbatim>\<open>loadReferences\<close>, lines 102 to 120: the type and the name of a reference, and
  whether it is a local branch; \<open>None\<close> is the \<^verbatim>\<open>continue\<close> of line 120.
\<close>

definition referenceTypeAndName ::
  "string \<Rightarrow> string \<Rightarrow> (ReferenceType \<times> string \<times> bool) option" where
  "referenceTypeAndName reference refName =
     (if startsWith refName ''refs/tags/'' then
        Some (Tag, remove_str (mid_n refName 10 (length reference)) ''^{}'', False)
      else if startsWith refName ''refs/heads/'' then
        Some (LocalBranch, mid refName 11, True)
      else if startsWith refName ''refs/remotes/'' \<and> \<not> endsWith refName ''HEAD'' then
        Some (RemoteBranches, mid refName 13, False)
      else None)"

text \<open>
  Lines 126 to 151: the distances of a local branch. \<open>split_char\<close> never returns the
  empty list, so \<^verbatim>\<open>values.first()\<close> and \<^verbatim>\<open>values.last()\<close> are \<open>hd\<close> and \<open>last\<close>.
\<close>

definition loadDistances ::
  "'ci GitEnv \<Rightarrow> string \<Rightarrow> 'ci GitRepoLoader \<Rightarrow> 'ci GitRepoLoader" where
  "loadDistances env name s =
     (let distances = defaultDistances;
          distToMaster = getDistanceBetweenBranches env True name;
          s1 = record_action (DistanceBetweenBranches True name) s;
          toMaster = output' distToMaster;
          distances =
            (if \<not> contains toMaster ''fatal'' then
               (let values = split_char (CHR 0x09) (replace_empty (CHR 0x0A) toMaster)
                in distances\<lparr>behindMaster := toUInt (hd values),
                             aheadMaster := toUInt (last values)\<rparr>)
             else distances);
          distToOrigin = getDistanceBetweenBranches env False name;
          s2 = record_action (DistanceBetweenBranches False name) s1;
          toOrigin = output' distToOrigin;
          distances =
            (if \<not> contains toOrigin ''fatal'' then
               (let values = split_char (CHR 0x09) (replace_empty (CHR 0x0A) toOrigin)
                in distances\<lparr>behindOrigin := toUInt (hd values),
                             aheadOrigin := toUInt (last values)\<rparr>)
             else distances)
      in cacheCall (InsertLocalBranchDistances name distances) s2)"

text \<open>Lines 93 to 155: the body of the loop over the lines of the reference listing.\<close>

definition loadReference ::
  "'ci GitEnv \<Rightarrow> string \<Rightarrow> 'ci GitRepoLoader \<Rightarrow> 'ci GitRepoLoader" where
  "loadReference env reference s =
     (let revSha = left reference 40;
          refName = mid reference 41
      in if \<not> startsWith refName ''refs/tags/''
            \<or> (startsWith refName ''refs/tags/'' \<and> endsWith refName ''^{}'') then
           (case referenceTypeAndName reference refName of
              None \<Rightarrow> s
            | Some (type, name, localBranches) \<Rightarrow>
                (let s1 = cacheCall (InsertReference revSha type name) s
                 in if localBranches then loadDistances env name s1 else s1))
         else s)"

fun loadReferenceList ::
  "'ci GitEnv \<Rightarrow> string list \<Rightarrow> 'ci GitRepoLoader \<Rightarrow> 'ci GitRepoLoader" where
  "loadReferenceList env [] s = s"
| "loadReferenceList env (reference # referencesList) s =
     loadReferenceList env referencesList (loadReference env reference s)"

text \<open>
  \<^verbatim>\<open>loadReferences\<close>. The commit that \<^verbatim>\<open>getLastCommit\<close> returns (\<^verbatim>\<open>curBranchSHA\<close>) and
  \<^verbatim>\<open>prevRefSha\<close> are assigned and never read in the source.
\<close>

definition loadReferences :: "'ci GitEnv \<Rightarrow> 'ci GitRepoLoader \<Rightarrow> 'ci GitRepoLoader" where
  "loadReferences env s =
     (let (ret3, s1) = gitRun env ''git show-ref -d'' s
      in if success ret3 then
           (let s2 = record_action LastCommit s1;
                referencesList = split_skip_empty (CHR 0x0A) (output' ret3)
            in loadReferenceList env referencesList s2)
         else s1)"

text \<open>
  \<^verbatim>\<open>processRevision\<close>, lines 193 to 203: the loop over the tokens, with the counter
  \<^verbatim>\<open>count\<close>; the \<^verbatim>\<open>break\<close> leaves the remaining tokens unread.
\<close>

fun insertCommits ::
  "'ci GitEnv \<Rightarrow> string list \<Rightarrow> nat \<Rightarrow> 'ci GitRepoLoader \<Rightarrow> 'ci GitRepoLoader" where
  "insertCommits env [] count s = s"
| "insertCommits env (token # commits) count s =
     (let revision = commitInfo env token
      in if isValid env revision then
           insertCommits env commits (count + 1)
             (emit (LoadingStep count) (cacheCall (InsertCommitInfo revision count) s))
         else s)"

definition processRevision ::
  "'ci GitEnv \<Rightarrow> string \<Rightarrow> 'ci GitRepoLoader \<Rightarrow> 'ci GitRepoLoader" where
  "processRevision env ba s =
     (let commits = split_char (CHR 0x00) ba;
          totalCommits = length commits;
          s1 = cacheCall (CacheConfigure totalCommits) s;
          s2 = emit (LoadingStarted totalCommits) s1;
          s3 = updateWipRevision env s2;
          s4 = insertCommits env commits 1 s3;
          s5 = setLocked False s4;
          s6 = loadReferences env s5
      in emit LoadingFinished s6)"

text \<open>
  A full load cycle: \<^verbatim>\<open>loadRepository\<close> and, when it has requested the log, the
  callback \<^verbatim>\<open>processRevision\<close> with the output \<open>ba\<close> of that request.
\<close>

definition loadCycle :: "'ci GitEnv \<Rightarrow> string \<Rightarrow> 'ci GitRepoLoader \<Rightarrow> 'ci GitRepoLoader" where
  "loadCycle env ba s =
     (let (ok, s1) = loadRepository env s
      in if ok then processRevision env ba s1 else s1)"

section \<open>Vocabulary of the properties\<close>

text \<open>The cache calls among a list of actions, in order.\<close>

fun cacheCallOf :: "'ci Action \<Rightarrow> 'ci CacheCall list" where
  "cacheCallOf (Cache c) = [c]"
| "cacheCallOf _ = []"

definition cacheCallsOf :: "'ci Action list \<Rightarrow> 'ci CacheCall list" where
  "cacheCallsOf t = concat (map cacheCallOf t)"

text \<open>
  The state after the loader has done the actions \<open>t\<close>, none of which writes
  \<^verbatim>\<open>mLocked\<close> or \<^verbatim>\<open>mGitBase\<close>: the cache calls among them are applied to the cache in
  order, and all of them are appended to the history.
\<close>

definition performs :: "'ci Action list \<Rightarrow> 'ci GitRepoLoader \<Rightarrow> 'ci GitRepoLoader" where
  "performs t s =
     s\<lparr>mRevCache := fold applyCall (cacheCallsOf t) (mRevCache s), trace := trace s @ t\<rparr>"

text \<open>
  The actions of \<^verbatim>\<open>updateWipRevision\<close> (commands, and the two cache calls that store the
  pending changes) and those of \<^verbatim>\<open>loadReferences\<close> (commands and queries, and the two
  cache calls that store references and distances).
\<close>

fun isWipAction :: "'ci Action \<Rightarrow> bool" where
  "isWipAction (Run cmd) = True"
| "isWipAction (Cache (SetUntrackedFilesList fs)) = True"
| "isWipAction (Cache (UpdateWipCommit p d c)) = True"
| "isWipAction _ = False"

fun isReferenceAction :: "'ci Action \<Rightarrow> bool" where
  "isReferenceAction (Run cmd) = True"
| "isReferenceAction LastCommit = True"
| "isReferenceAction (DistanceBetweenBranches m n) = True"
| "isReferenceAction (Cache (InsertReference sha ty name)) = True"
| "isReferenceAction (Cache (InsertLocalBranchDistances name d)) = True"
| "isReferenceAction _ = False"

text \<open>The tokens before the first one that does not decode to a valid record.\<close>

definition validTokens :: "'ci GitEnv \<Rightarrow> string list \<Rightarrow> string list" where
  "validTokens env tokens = takeWhile (\<lambda>t. isValid env (commitInfo env t)) tokens"

text \<open>
  Inserting a record with its sequence index and emitting the step event of that index;
  \<open>commitActions\<close> does so for the valid tokens, numbered from \<open>count\<close>.
\<close>

fun insertAndStep :: "nat \<times> 'ci \<Rightarrow> 'ci Action list" where
  "insertAndStep (idx, revision) = [Cache (InsertCommitInfo revision idx), Emit (LoadingStep idx)]"

definition commitActions :: "'ci GitEnv \<Rightarrow> string list \<Rightarrow> nat \<Rightarrow> 'ci Action list" where
  "commitActions env tokens count =
     concat (map insertAndStep
       (zip [count ..< count + length (validTokens env tokens)]
            (map (commitInfo env) (validTokens env tokens))))"

text \<open>The payloads of the step events, and of the loading-started events, of a history.\<close>

fun stepOf :: "'ci Action \<Rightarrow> nat list" where
  "stepOf (Emit (LoadingStep n)) = [n]"
| "stepOf _ = []"

definition stepEvents :: "'ci Action list \<Rightarrow> nat list" where
  "stepEvents t = concat (map stepOf t)"

fun startedOf :: "'ci Action \<Rightarrow> nat list" where
  "startedOf (Emit (LoadingStarted n)) = [n]"
| "startedOf _ = []"

definition startedEvents :: "'ci Action list \<Rightarrow> nat list" where
  "startedEvents t = concat (map startedOf t)"

text \<open>The insertions of commit records in a history: sequence index and record.\<close>

fun insertOf :: "'ci Action \<Rightarrow> (nat \<times> 'ci) list" where
  "insertOf (Cache (InsertCommitInfo revision idx)) = [(idx, revision)]"
| "insertOf _ = []"

definition insertCalls :: "'ci Action list \<Rightarrow> (nat \<times> 'ci) list" where
  "insertCalls t = concat (map insertOf t)"

text \<open>
  Two caches hold the same loaded data: everything but the list of untracked files
  (the only part that depends on where the working directory is).
\<close>

definition sameLoadedData :: "'ci RevisionsCache \<Rightarrow> 'ci RevisionsCache \<Rightarrow> bool" where
  "sameLoadedData c c' =
     (configuredTotal c = configuredTotal c' \<and> commitRecords c = commitRecords c'
      \<and> wipCommit c = wipCommit c' \<and> references c = references c'
      \<and> distances c = distances c')"

text \<open>The parts of a split, put together again with the separator between them.\<close>

fun joinWith :: "char \<Rightarrow> string list \<Rightarrow> string" where
  "joinWith sep [] = []"
| "joinWith sep [p] = p"
| "joinWith sep (p # q # ps) = p @ sep # joinWith sep (q # ps)"

text \<open>A number written in decimal, as the distance command prints it.\<close>

fun decimalText :: "nat \<Rightarrow> string" where
  "decimalText n =
     (if n < 10 then [''0123456789'' ! n]
      else decimalText (n div 10) @ [''0123456789'' ! (n mod 10)])"

declare decimalText.simps [simp del]

section \<open>An example snapshot\<close>

text \<open>
  A repository at \<^verbatim>\<open>/repo\<close> whose HEAD is the commit \<open>sha_a\<close>, with one untracked file
  that the listing names twice, no exclude file, and no branch to compare with. The
  example takes the token itself for \<^verbatim>\<open>CommitInfo\<close> and the empty token for invalid.
\<close>

definition sha_a :: string where
  "sha_a = ''aaaaaaaaaaaaaaaaaaaaaaaaaaaaaaaaaaaaaaaa''"

definition exampleOutput :: "string \<Rightarrow> GitExecResult" where
  "exampleOutput cmd =
     (if cmd = ''git rev-parse --show-cdup'' then \<lparr>success = True, output' = [CHR 0x0A]\<rparr>
      else if cmd = ''git rev-parse --revs-only HEAD'' then
        \<lparr>success = True, output' = sha_a @ [CHR 0x0A]\<rparr>
      else if cmd = ''git ls-files --others --exclude-per-directory=$.gitignore$'' then
        \<lparr>success = True, output' = ''foo.txt'' @ [CHR 0x0A] @ ''foo.txt'' @ [CHR 0x0A]\<rparr>
      else \<lparr>success = False, output' = ''fatal: failed''\<rparr>)"

definition exampleEnv :: "string GitEnv" where
  "exampleEnv =
     \<lparr>run = exampleOutput,
      fileExists = (\<lambda>path. False),
      absolutePath = (\<lambda>path. ''/repo''),
      headBranch = ''main'',
      getLastCommit = \<lparr>success = True, output' = sha_a\<rparr>,
      getDistanceBetweenBranches =
        (\<lambda>toMaster name. \<lparr>success = False, output' = ''fatal: failed''\<rparr>),
      commitInfo = (\<lambda>token. token),
      isValid = (\<lambda>revision. revision \<noteq> [])\<rparr>"

text \<open>The same, where every command fails: the directory is not a repository.\<close>

definition notRepositoryEnv :: "string GitEnv" where
  "notRepositoryEnv =
     exampleEnv\<lparr>run := (\<lambda>cmd. \<lparr>success = False, output' = ''fatal: not a git repository''\<rparr>)\<rparr>"

text \<open>The same, with a given output of \<^verbatim>\<open>git show-ref -d\<close>.\<close>

definition listingEnv :: "string \<Rightarrow> string GitEnv" where
  "listingEnv listing =
     exampleEnv\<lparr>run := (\<lambda>cmd. if cmd = ''git show-ref -d''
                              then \<lparr>success = True, output' = listing\<rparr>
                              else exampleOutput cmd)\<rparr>"

text \<open>The same, with the file \<^verbatim>\<open>/repo/.git/info/exclude\<close>.\<close>

definition excludeFileEnv :: "string GitEnv" where
  "excludeFileEnv = exampleEnv\<lparr>fileExists := (\<lambda>path. path = ''/repo/.git/info/exclude'')\<rparr>"

text \<open>
  The same, where \<open>main\<close> is 2 behind and 5 ahead of master and has no origin, and every
  other branch is 2 behind and 5 ahead of its origin and cannot be compared with master.
\<close>

definition distancesEnv :: "string GitEnv" where
  "distancesEnv =
     exampleEnv\<lparr>getDistanceBetweenBranches :=
       (\<lambda>toMaster name.
          if toMaster = (name = ''main'')
          then \<lparr>success = True, output' = ''2'' @ [CHR 0x09] @ ''5'' @ [CHR 0x0A]\<rparr>
          else \<lparr>success = False, output' = ''fatal: no upstream''\<rparr>)\<rparr>"

definition idleLoader :: "string GitRepoLoader" where
  "idleLoader =
     \<lparr>mLocked = False, mShowAll = True,
      mGitBase = \<lparr>workingDir = ''/repo'', currentBranch = []\<rparr>,
      mRevCache = emptyCache, trace = []\<rparr>"

definition busyLoader :: "string GitRepoLoader" where
  "busyLoader = idleLoader\<lparr>mLocked := True\<rparr>"

text \<open>Four tokens: two valid ones, an empty one, and one more.\<close>

definition exampleBuffer :: string where
  "exampleBuffer = ''c1'' @ [CHR 0x00] @ ''c2'' @ [CHR 0x00] @ [CHR 0x00] @ ''c4''"

section \<open>Lemmas\<close>

subsection \<open>Strings\<close>

lemma startsWith_prefix: "startsWith s p \<longleftrightarrow> prefix p s"
  unfolding startsWith_def
  by (metis append_eq_conv_conj prefix_def)

lemma endsWith_suffix: "endsWith s p \<longleftrightarrow> suffix p s"
proof
  assume "endsWith s p"
  then have "s = take (length s - length p) s @ p"
    by (metis append_take_drop_id endsWith_def)
  then show "suffix p s"
    by (metis suffixI)
next
  assume "suffix p s"
  then obtain zs where "s = zs @ p"
    by (auto simp: suffix_def)
  then show "endsWith s p"
    by (simp add: endsWith_def)
qed

lemma endsWith_after_separator:
  assumes "p \<noteq> []" and "last p \<notin> set m"
  shows "endsWith (p @ n) m = endsWith n m"
proof -
  have "suffix m n" if "suffix m (p @ n)"
  proof -
    from that consider "suffix m n" | m' where "suffix m' p" "m = m' @ n"
      by (auto simp: suffix_append)
    then show ?thesis
    proof cases
      case 1
      then show ?thesis .
    next
      case 2
      show ?thesis
      proof (cases "m' = []")
        case True
        with 2 show ?thesis by simp
      next
        case False
        with 2(1) have "last m' = last p"
          by (auto simp: suffix_def)
        with False 2(2) have "last p \<in> set m"
          by (metis Un_iff last_in_set set_append)
        with assms(2) show ?thesis by simp
      qed
    qed
  qed
  moreover have "suffix m (p @ n)" if "suffix m n"
    using that by (simp add: suffix_appendI)
  ultimately show ?thesis
    by (auto simp: endsWith_suffix)
qed

lemma contains_sublist: "contains s p \<longleftrightarrow> sublist p s"
  by (induction s) (auto simp: startsWith_prefix sublist_Cons_right)

lemma contains_set: "contains s p \<Longrightarrow> set p \<subseteq> set s"
  by (simp add: contains_sublist set_mono_sublist)

lemma remove_marker_at_end:
  "\<not> contains base ''^{}'' \<Longrightarrow> remove_str (base @ ''^{}'') ''^{}'' = base"
proof (induction base)
  case Nil
  show ?case by (simp add: startsWith_def)
next
  case (Cons c cs)
  from Cons.prems have here: "\<not> startsWith (c # cs) ''^{}''" and rest: "\<not> contains cs ''^{}''"
    by simp_all
  have "\<not> startsWith (c # cs @ ''^{}'') ''^{}''"
  proof (cases cs)
    case Nil
    then show ?thesis by (auto simp: startsWith_def)
  next
    case (Cons d ds)
    note outer = this
    show ?thesis
    proof (cases ds)
      case Nil
      with outer show ?thesis by (auto simp: startsWith_def)
    next
      case (Cons e es)
      with outer here show ?thesis by (auto simp: startsWith_def)
    qed
  qed
  with Cons.IH [OF rest] show ?case by simp
qed

lemma split_char_not_Nil [simp]: "split_char sep s \<noteq> []"
  by (induction s) (auto split: list.splits)

lemma length_split_char: "length (split_char sep s) = Suc (count_list s sep)"
  by (induction s) (auto split: list.splits)

lemma joinWith_split_char: "joinWith sep (split_char sep s) = s"
proof (induction s)
  case Nil
  show ?case by simp
next
  case (Cons c cs)
  obtain p ps where ps: "split_char sep cs = p # ps"
    by (cases "split_char sep cs") simp_all
  with Cons show ?case
    by (cases ps) auto
qed

lemma split_char_parts: "p \<in> set (split_char sep s) \<Longrightarrow> sep \<notin> set p"
  by (induction s arbitrary: p) (auto split: if_splits list.splits)

lemma split_char_no_separator: "sep \<notin> set xs \<Longrightarrow> split_char sep xs = [xs]"
  by (induction xs) auto

lemma split_char_at_separator:
  "sep \<notin> set xs \<Longrightarrow> split_char sep (xs @ sep # ys) = xs # split_char sep ys"
  by (induction xs) auto

lemma digit_cases:
  assumes "d < (10::nat)"
  obtains "d = 0" | "d = 1" | "d = 2" | "d = 3" | "d = 4" | "d = 5" | "d = 6" | "d = 7"
    | "d = 8" | "d = 9"
proof -
  from assms have "d = 0 \<or> d = 1 \<or> d = 2 \<or> d = 3 \<or> d = 4 \<or> d = 5 \<or> d = 6 \<or> d = 7
      \<or> d = 8 \<or> d = 9"
    by arith
  then show thesis
    using that by blast
qed

lemma isDigit_digit: "d < 10 \<Longrightarrow> isDigit (''0123456789'' ! d)"
  by (erule digit_cases) (simp_all add: isDigit_def)

lemma digitValue_digit: "d < 10 \<Longrightarrow> digitValue (''0123456789'' ! d) = d"
  by (erule digit_cases) (simp_all add: digitValue_def)

lemma isDigit_not_other:
  "isDigit c \<Longrightarrow> \<not> isSpace c \<and> c \<noteq> CHR 0x09 \<and> c \<noteq> CHR 0x0A \<and> c \<noteq> CHR ''f''"
  by (auto simp: isDigit_def isSpace_def)

lemma decimalText_digits: "list_all isDigit (decimalText n) \<and> decimalText n \<noteq> []"
proof (induction n rule: decimalText.induct)
  case (1 n)
  show ?case
  proof (cases "n < 10")
    case True
    then show ?thesis
      by (subst (1 2) decimalText.simps) (simp add: isDigit_digit)
  next
    case False
    with 1 show ?thesis
      by (subst (1 2) decimalText.simps) (simp add: isDigit_digit)
  qed
qed

lemma decimalValue_snoc: "decimalValue (xs @ [c]) = 10 * decimalValue xs + digitValue c"
  by (simp add: decimalValue_def)

lemma decimalValue_decimalText: "decimalValue (decimalText n) = n"
proof (induction n rule: decimalText.induct)
  case (1 n)
  show ?case
  proof (cases "n < 10")
    case True
    then show ?thesis
      by (subst decimalText.simps) (simp add: decimalValue_def digitValue_digit)
  next
    case False
    with 1 show ?thesis
      by (subst decimalText.simps) (simp add: decimalValue_snoc digitValue_digit)
  qed
qed

lemma trimmed_no_space:
  assumes "\<forall>c \<in> set s. \<not> isSpace c"
  shows "trimmed s = s"
proof -
  have keep: "dropWhile isSpace xs = xs" if "\<forall>c \<in> set xs. \<not> isSpace c" for xs
    using that by (cases xs) simp_all
  have "dropWhile isSpace s = s"
    using assms by (rule keep)
  moreover have "dropWhile isSpace (rev s) = rev s"
    using assms by (intro keep) simp
  ultimately show ?thesis
    by (simp add: trimmed_def)
qed

lemma toUInt_decimalText: "n < 2 ^ 32 \<Longrightarrow> toUInt (decimalText n) = n"
proof -
  assume bound: "n < 2 ^ 32"
  have "\<forall>c \<in> set (decimalText n). \<not> isSpace c"
    using decimalText_digits [of n] isDigit_not_other by (auto simp: list_all_iff)
  then have "trimmed (decimalText n) = decimalText n"
    by (rule trimmed_no_space)
  with bound decimalText_digits [of n] show ?thesis
    by (simp add: toUInt_def decimalValue_decimalText)
qed

lemma distance_output_parsed:
  assumes "replace_empty (CHR 0x0A) out = decimalText behind @ [CHR 0x09] @ decimalText ahead"
  shows "\<not> contains out ''fatal''"
    and "split_char (CHR 0x09) (replace_empty (CHR 0x0A) out) = [decimalText behind, decimalText ahead]"
proof -
  have digits: "c \<in> set (decimalText k) \<Longrightarrow> isDigit c" for c k
    using decimalText_digits [of k] by (simp add: list_all_iff)
  show "\<not> contains out ''fatal''"
  proof
    assume "contains out ''fatal''"
    then have "CHR ''f'' \<in> set out"
      using contains_set by fastforce
    then have "CHR ''f'' \<in> set (replace_empty (CHR 0x0A) out)"
      by (simp add: replace_empty_def)
    then have "CHR ''f'' \<in> set (decimalText behind) \<or> CHR ''f'' \<in> set (decimalText ahead)"
      by (simp add: assms)
    then show False
      using digits isDigit_not_other by blast
  qed
  have tab: "CHR 0x09 \<notin> set (decimalText k)" for k
    using digits isDigit_not_other by blast
  show "split_char (CHR 0x09) (replace_empty (CHR 0x0A) out) = [decimalText behind, decimalText ahead]"
    by (simp add: assms split_char_at_separator [OF tab] split_char_no_separator [OF tab])
qed

subsection \<open>Actions and their effect on the state\<close>

lemma cacheCallsOf_simps [simp]:
  "cacheCallsOf [] = []"
  "cacheCallsOf (Cache c # t) = c # cacheCallsOf t"
  "cacheCallsOf (Run cmd # t) = cacheCallsOf t"
  "cacheCallsOf (Request cmd # t) = cacheCallsOf t"
  "cacheCallsOf (LastCommit # t) = cacheCallsOf t"
  "cacheCallsOf (DistanceBetweenBranches m n # t) = cacheCallsOf t"
  "cacheCallsOf (UpdateCurrentBranch # t) = cacheCallsOf t"
  "cacheCallsOf (Emit sg # t) = cacheCallsOf t"
  "cacheCallsOf (Locked b # t) = cacheCallsOf t"
  "cacheCallsOf (t @ u) = cacheCallsOf t @ cacheCallsOf u"
  by (simp_all add: cacheCallsOf_def)

lemma performs_Nil [simp]: "performs [] s = s"
  by (simp add: performs_def)

lemma performs_performs [simp]: "performs u (performs t s) = performs (t @ u) s"
  by (simp add: performs_def)

lemma performs_fields [simp]:
  "mLocked (performs t s) = mLocked s"
  "mShowAll (performs t s) = mShowAll s"
  "mGitBase (performs t s) = mGitBase s"
  "trace (performs t s) = trace s @ t"
  "mRevCache (performs t s) = fold applyCall (cacheCallsOf t) (mRevCache s)"
  "getWorkingDir (performs t s) = getWorkingDir s"
  by (simp_all add: performs_def getWorkingDir_def)

lemma performs_mLocked_update: "performs t (s\<lparr>mLocked := b\<rparr>) = (performs t s)\<lparr>mLocked := b\<rparr>"
  by (simp add: performs_def)

lemma record_action_performs:
  "cacheCallOf a = [] \<Longrightarrow> record_action a s = performs [a] s"
  by (simp add: record_action_def performs_def cacheCallsOf_def)

lemma cacheCall_performs: "cacheCall c s = performs [Cache c] s"
  by (simp add: cacheCall_def record_action_def performs_def)

lemma emit_performs: "emit sg s = performs [Emit sg] s"
  by (simp add: emit_def record_action_performs)

lemma setLocked_performs: "setLocked b s = (performs [Locked b] s)\<lparr>mLocked := b\<rparr>"
  by (simp add: setLocked_def record_action_def performs_def)

lemma gitRun_performs: "gitRun env cmd s = (run env cmd, performs [Run cmd] s)"
  by (simp add: gitRun_def record_action_performs)

lemma stepEvents_simps [simp]:
  "stepEvents [] = []"
  "stepEvents (a # t) = stepOf a @ stepEvents t"
  "stepEvents (t @ u) = stepEvents t @ stepEvents u"
  by (simp_all add: stepEvents_def)

lemma startedEvents_simps [simp]:
  "startedEvents [] = []"
  "startedEvents (a # t) = startedOf a @ startedEvents t"
  "startedEvents (t @ u) = startedEvents t @ startedEvents u"
  by (simp_all add: startedEvents_def)

lemma wip_action_cases:
  assumes "isWipAction a"
  obtains cmd where "a = Run cmd"
  | fs where "a = Cache (SetUntrackedFilesList fs)"
  | p d c where "a = Cache (UpdateWipCommit p d c)"
  using assms by (cases a rule: isWipAction.cases) auto

lemma reference_action_cases:
  assumes "isReferenceAction a"
  obtains cmd where "a = Run cmd"
  | "a = LastCommit"
  | m n where "a = DistanceBetweenBranches m n"
  | sha ty name where "a = Cache (InsertReference sha ty name)"
  | name d where "a = Cache (InsertLocalBranchDistances name d)"
  using assms by (cases a rule: isReferenceAction.cases) auto

lemma wip_actions_events:
  "list_all isWipAction t \<Longrightarrow> stepEvents t = [] \<and> startedEvents t = []"
  by (induction t) (auto elim!: wip_action_cases)

lemma reference_actions_events:
  "list_all isReferenceAction t \<Longrightarrow> stepEvents t = [] \<and> startedEvents t = []"
  by (induction t) (auto elim!: reference_action_cases)

lemma wip_actions_cache:
  "list_all isWipAction t \<Longrightarrow>
     commitRecords (fold applyCall (cacheCallsOf t) c) = commitRecords c \<and>
     references (fold applyCall (cacheCallsOf t) c) = references c \<and>
     distances (fold applyCall (cacheCallsOf t) c) = distances c \<and>
     configuredTotal (fold applyCall (cacheCallsOf t) c) = configuredTotal c"
  by (induction t arbitrary: c) (auto elim!: wip_action_cases)

lemma reference_actions_cache:
  "list_all isReferenceAction t \<Longrightarrow>
     commitRecords (fold applyCall (cacheCallsOf t) c) = commitRecords c \<and>
     wipCommit (fold applyCall (cacheCallsOf t) c) = wipCommit c \<and>
     untrackedFiles (fold applyCall (cacheCallsOf t) c) = untrackedFiles c \<and>
     configuredTotal (fold applyCall (cacheCallsOf t) c) = configuredTotal c"
  by (induction t arbitrary: c) (auto elim!: reference_action_cases)

lemma insertAndStep_cache:
  "fold applyCall (cacheCallsOf (concat (map insertAndStep ps))) c =
     c\<lparr>commitRecords := commitRecords c @ ps\<rparr>"
  by (induction ps arbitrary: c) auto

lemma insertAndStep_events:
  "stepEvents (concat (map insertAndStep ps)) = map fst ps \<and>
   startedEvents (concat (map insertAndStep ps)) = []"
  by (induction ps) auto

lemma commitActions_cache:
  "fold applyCall (cacheCallsOf (commitActions env tokens count)) c =
     c\<lparr>commitRecords := commitRecords c @
          zip [count ..< count + length (validTokens env tokens)]
              (map (commitInfo env) (validTokens env tokens))\<rparr>"
  by (simp add: commitActions_def insertAndStep_cache)

lemma commitActions_events:
  "stepEvents (commitActions env tokens count) = [count ..< count + length (validTokens env tokens)]"
  "startedEvents (commitActions env tokens count) = []"
  by (simp_all add: commitActions_def insertAndStep_events)

lemma insertCalls_simps [simp]:
  "insertCalls [] = []"
  "insertCalls (a # t) = insertOf a @ insertCalls t"
  "insertCalls (t @ u) = insertCalls t @ insertCalls u"
  by (simp_all add: insertCalls_def)

lemma wip_actions_inserts: "list_all isWipAction t \<Longrightarrow> insertCalls t = []"
  by (induction t) (auto elim!: wip_action_cases)

lemma reference_actions_inserts: "list_all isReferenceAction t \<Longrightarrow> insertCalls t = []"
  by (induction t) (auto elim!: reference_action_cases)

lemma insertAndStep_inserts: "insertCalls (concat (map insertAndStep ps)) = ps"
  by (induction ps) auto

lemma commitActions_inserts:
  "insertCalls (commitActions env tokens count) =
     zip [count ..< count + length (validTokens env tokens)]
         (map (commitInfo env) (validTokens env tokens))"
  by (simp add: commitActions_def insertAndStep_inserts)

lemma validTokens_length: "length (validTokens env tokens) \<le> length tokens"
  by (simp add: validTokens_def length_takeWhile_le)

lemma validTokens_length_less:
  "\<exists>t\<in>set tokens. \<not> isValid env (commitInfo env t) \<Longrightarrow>
     length (validTokens env tokens) < length tokens"
  unfolding validTokens_def
  by (induction tokens) auto

lemma applyCall_sameLoadedData:
  "sameLoadedData c c' \<Longrightarrow> sameLoadedData (applyCall x c) (applyCall x c')"
  by (cases x) (simp_all add: sameLoadedData_def)

lemma fold_applyCall_sameLoadedData:
  "sameLoadedData c c' \<Longrightarrow> sameLoadedData (fold applyCall xs c) (fold applyCall xs c')"
  by (induction xs arbitrary: c c') (simp_all add: applyCall_sameLoadedData)

lemma untracked_sameLoadedData:
  "sameLoadedData c c' \<Longrightarrow>
     sameLoadedData (applyCall (SetUntrackedFilesList fs) c) (applyCall (SetUntrackedFilesList fs') c')"
  by (simp add: sameLoadedData_def)

subsection \<open>The effect of each member function\<close>

lemma getUntrackedFiles_performs:
  "getUntrackedFiles env s =
     (split_skip_empty (CHR 0x0A) (output' (run env (untrackedFilesCommand env s))),
      performs [Run (untrackedFilesCommand env s)] s)"
  by (simp add: getUntrackedFiles_def gitRun_performs)

lemma untrackedFilesCommand_performs [simp]:
  "untrackedFilesCommand env (performs t s) = untrackedFilesCommand env s"
  by (simp add: untrackedFilesCommand_def)

lemma getUntrackedFiles_fst_performs [simp]:
  "fst (getUntrackedFiles env (performs t s)) = fst (getUntrackedFiles env s)"
  by (simp add: getUntrackedFiles_performs)

lemma updateWipRevision_performs:
  "\<exists>t. list_all isWipAction t \<and>
       (success (run env ''git rev-parse --revs-only HEAD'') \<longrightarrow>
          (\<exists>t' d c. t = t' @ [Cache (UpdateWipCommit
              (trimmed (output' (run env ''git rev-parse --revs-only HEAD''))) d c)])) \<and>
       (\<forall>s. updateWipRevision env s =
          performs ([Run (untrackedFilesCommand env s),
                     Cache (SetUntrackedFilesList (fst (getUntrackedFiles env s)))] @ t) s)"
proof (cases "success (run env ''git rev-parse --revs-only HEAD'')")
  case True
  define p where "p = trimmed (output' (run env ''git rev-parse --revs-only HEAD''))"
  define d where "d = (if success (run env (''git diff-index '' @ p))
                       then output' (run env (''git diff-index '' @ p)) else [])"
  define c where "c = (if success (run env (''git diff-index --cached '' @ p))
                       then output' (run env (''git diff-index --cached '' @ p)) else [])"
  define t' :: "'a Action list" where
    "t' = [Run ''git rev-parse --revs-only HEAD'', Run (''git diff-index '' @ p),
           Run (''git diff-index --cached '' @ p)]"
  have "list_all isWipAction (t' @ [Cache (UpdateWipCommit p d c)])"
    by (simp add: t'_def)
  moreover have "updateWipRevision env s =
          performs ([Run (untrackedFilesCommand env s),
                     Cache (SetUntrackedFilesList (fst (getUntrackedFiles env s)))]
                    @ t' @ [Cache (UpdateWipCommit p d c)]) s" for s
    using True
    by (simp add: t'_def p_def d_def c_def updateWipRevision_def getUntrackedFiles_performs
        gitRun_performs cacheCall_performs Let_def)
  ultimately show ?thesis
    unfolding p_def by blast
next
  case False
  show ?thesis
    apply (rule exI [of _ "[Run ''git rev-parse --revs-only HEAD'']"])
    using False
    by (simp add: updateWipRevision_def getUntrackedFiles_performs gitRun_performs
        cacheCall_performs Let_def)
qed

lemma insertCommits_performs:
  "insertCommits env tokens count s = performs (commitActions env tokens count) s"
proof (induction tokens arbitrary: count s)
  case Nil
  then show ?case by (simp add: commitActions_def validTokens_def)
next
  case (Cons t ts)
  show ?case
  proof (cases "isValid env (commitInfo env t)")
    case True
    have "[count ..< count + Suc (length (validTokens env ts))] =
          count # [Suc count ..< Suc count + length (validTokens env ts)]"
      by (subst upt_rec) simp
    then have "commitActions env (t # ts) count =
          insertAndStep (count, commitInfo env t) @ commitActions env ts (Suc count)"
      using True by (simp add: commitActions_def validTokens_def)
    then show ?thesis
      using True Cons.IH [of "Suc count"]
      by (simp add: cacheCall_performs emit_performs)
  next
    case False
    then show ?thesis by (simp add: commitActions_def validTokens_def)
  qed
qed

lemma loadDistances_result:
  "\<exists>d. (\<forall>s. loadDistances env name s =
            performs [DistanceBetweenBranches True name, DistanceBetweenBranches False name,
                      Cache (InsertLocalBranchDistances name d)] s)
     \<and> (if contains (output' (getDistanceBetweenBranches env True name)) ''fatal''
         then behindMaster d = 0 \<and> aheadMaster d = 0
         else behindMaster d = toUInt (hd (split_char (CHR 0x09)
                 (replace_empty (CHR 0x0A) (output' (getDistanceBetweenBranches env True name)))))
            \<and> aheadMaster d = toUInt (last (split_char (CHR 0x09)
                 (replace_empty (CHR 0x0A) (output' (getDistanceBetweenBranches env True name))))))
     \<and> (if contains (output' (getDistanceBetweenBranches env False name)) ''fatal''
         then behindOrigin d = 0 \<and> aheadOrigin d = 0
         else behindOrigin d = toUInt (hd (split_char (CHR 0x09)
                 (replace_empty (CHR 0x0A) (output' (getDistanceBetweenBranches env False name)))))
            \<and> aheadOrigin d = toUInt (last (split_char (CHR 0x09)
                 (replace_empty (CHR 0x0A) (output' (getDistanceBetweenBranches env False name))))))"
proof -
  let ?outM = "output' (getDistanceBetweenBranches env True name)"
  let ?outO = "output' (getDistanceBetweenBranches env False name)"
  let ?vm = "split_char (CHR 0x09) (replace_empty (CHR 0x0A) ?outM)"
  let ?vo = "split_char (CHR 0x09) (replace_empty (CHR 0x0A) ?outO)"
  define dm where "dm =
     (if \<not> contains ?outM ''fatal''
      then defaultDistances\<lparr>behindMaster := toUInt (hd ?vm), aheadMaster := toUInt (last ?vm)\<rparr>
      else defaultDistances)"
  define d where "d =
     (if \<not> contains ?outO ''fatal''
      then dm\<lparr>behindOrigin := toUInt (hd ?vo), aheadOrigin := toUInt (last ?vo)\<rparr>
      else dm)"
  have "loadDistances env name s =
            performs [DistanceBetweenBranches True name, DistanceBetweenBranches False name,
                      Cache (InsertLocalBranchDistances name d)] s" for s
    by (simp add: loadDistances_def Let_def d_def dm_def record_action_performs cacheCall_performs)
  moreover have "if contains ?outM ''fatal''
         then behindMaster d = 0 \<and> aheadMaster d = 0
         else behindMaster d = toUInt (hd ?vm) \<and> aheadMaster d = toUInt (last ?vm)"
    by (simp add: d_def dm_def defaultDistances_def)
  moreover have "if contains ?outO ''fatal''
         then behindOrigin d = 0 \<and> aheadOrigin d = 0
         else behindOrigin d = toUInt (hd ?vo) \<and> aheadOrigin d = toUInt (last ?vo)"
    by (simp add: d_def dm_def defaultDistances_def)
  ultimately show ?thesis by blast
qed

lemma loadDistances_performs:
  "\<exists>d. \<forall>s. loadDistances env name s =
     performs [DistanceBetweenBranches True name, DistanceBetweenBranches False name,
               Cache (InsertLocalBranchDistances name d)] s"
  using loadDistances_result [of env name] by blast

lemma reference_line_parts:
  "length sha = 40 \<Longrightarrow> left (sha @ CHR '' '' # refName) 40 = sha"
  "length sha = 40 \<Longrightarrow> mid (sha @ CHR '' '' # refName) 41 = refName"
  by (simp_all add: left_def mid_def)

lemma loadReference_tag_dereferenced:
  assumes "length sha = 40"
  shows "loadReference env (sha @ '' refs/tags/'' @ base @ ''^{}'') s =
     cacheCall (InsertReference sha Tag (remove_str (base @ ''^{}'') ''^{}'')) s"
proof -
  have e: "endsWith (''refs/tags/'' @ base @ ''^{}'') ''^{}''"
    by (simp add: endsWith_suffix suffix_def)
  have st: "startsWith (''refs/tags/'' @ base @ ''^{}'') ''refs/tags/''"
    by (simp add: startsWith_def)
  have m: "mid_n (''refs/tags/'' @ base @ ''^{}'') 10
             (length (sha @ '' refs/tags/'' @ base @ ''^{}'')) = base @ ''^{}''"
    by (simp add: mid_n_def)
  show ?thesis
    using reference_line_parts [OF assms, of "''refs/tags/'' @ base @ ''^{}''"] e st m
    by (simp add: loadReference_def referenceTypeAndName_def Let_def)
qed

lemma loadReference_tag_plain:
  assumes "\<not> endsWith name ''^{}''"
  shows "length sha = 40 \<Longrightarrow> loadReference env (sha @ '' refs/tags/'' @ name) s = s"
proof -
  assume len: "length sha = 40"
  have "endsWith (''refs/tags/'' @ name) ''^{}'' = endsWith name ''^{}''"
    by (rule endsWith_after_separator) simp_all
  with assms have e: "\<not> endsWith (''refs/tags/'' @ name) ''^{}''"
    by simp
  have st: "startsWith (''refs/tags/'' @ name) ''refs/tags/''"
    by (simp add: startsWith_def)
  show ?thesis
    using reference_line_parts [OF len, of "''refs/tags/'' @ name"] e st
    by (simp add: loadReference_def Let_def)
qed

lemma loadReference_local_branch:
  assumes "length sha = 40"
  shows "loadReference env (sha @ '' refs/heads/'' @ name) s =
     loadDistances env name (cacheCall (InsertReference sha LocalBranch name) s)"
proof -
  have st: "\<not> startsWith (''refs/heads/'' @ name) ''refs/tags/''"
      "startsWith (''refs/heads/'' @ name) ''refs/heads/''"
    by (simp_all add: startsWith_def)
  have m: "mid (''refs/heads/'' @ name) 11 = name"
    by (simp add: mid_def)
  show ?thesis
    using reference_line_parts [OF assms, of "''refs/heads/'' @ name"] st m
    by (simp add: loadReference_def referenceTypeAndName_def Let_def)
qed

lemma loadReference_local_branch_trace:
  assumes "length sha = 40"
    and "\<And>s. loadDistances env name s =
            performs [DistanceBetweenBranches True name, DistanceBetweenBranches False name,
                      Cache (InsertLocalBranchDistances name d)] s"
  shows "trace (loadReference env (sha @ '' refs/heads/'' @ name) s) =
           trace s @ [Cache (InsertReference sha LocalBranch name),
                      DistanceBetweenBranches True name, DistanceBetweenBranches False name,
                      Cache (InsertLocalBranchDistances name d)]"
  unfolding loadReference_local_branch [OF assms(1)] assms(2) cacheCall_performs
  by simp

lemma loadReference_remote:
  assumes "length sha = 40"
  shows "loadReference env (sha @ '' refs/remotes/'' @ name) s =
     (if endsWith name ''HEAD'' then s
      else cacheCall (InsertReference sha RemoteBranches name) s)"
proof -
  have st: "\<not> startsWith (''refs/remotes/'' @ name) ''refs/tags/''"
      "\<not> startsWith (''refs/remotes/'' @ name) ''refs/heads/''"
      "startsWith (''refs/remotes/'' @ name) ''refs/remotes/''"
    by (simp_all add: startsWith_def)
  have e: "endsWith (''refs/remotes/'' @ name) ''HEAD'' = endsWith name ''HEAD''"
    by (rule endsWith_after_separator) simp_all
  have m: "mid (''refs/remotes/'' @ name) 13 = name"
    by (simp add: mid_def)
  show ?thesis
    using reference_line_parts [OF assms, of "''refs/remotes/'' @ name"] st m e
    by (simp add: loadReference_def referenceTypeAndName_def Let_def)
qed

lemma loadReference_performs:
  "\<exists>t. list_all isReferenceAction t \<and> (\<forall>s. loadReference env reference s = performs t s)"
proof (cases "referenceTypeAndName reference (mid reference 41)")
  case None
  then have "loadReference env reference s = performs [] s" for s
    by (simp add: loadReference_def Let_def)
  then show ?thesis by (intro exI [of _ "[]"]) simp
next
  case (Some r)
  obtain ty name localBranches where r: "r = (ty, name, localBranches)"
    by (cases r) auto
  obtain d where d: "\<And>s. loadDistances env name s =
     performs [DistanceBetweenBranches True name, DistanceBetweenBranches False name,
               Cache (InsertLocalBranchDistances name d)] s"
    using loadDistances_performs by blast
  let ?kept = "\<not> startsWith (mid reference 41) ''refs/tags/''
            \<or> (startsWith (mid reference 41) ''refs/tags/'' \<and> endsWith (mid reference 41) ''^{}'')"
  let ?ins = "Cache (InsertReference (left reference 40) ty name)"
  consider (skip) "\<not> ?kept" | (plain) "?kept" "\<not> localBranches" | (branch) "?kept" "localBranches"
    by blast
  then show ?thesis
  proof cases
    case skip
    then have "loadReference env reference s = performs [] s" for s
      by (simp add: loadReference_def Let_def)
    then show ?thesis by (intro exI [of _ "[]"]) simp
  next
    case plain
    then have "loadReference env reference s = performs [?ins] s" for s
      using Some r by (simp add: loadReference_def Let_def cacheCall_performs)
    then show ?thesis by (intro exI [of _ "[?ins]"]) simp
  next
    case branch
    then have "loadReference env reference s =
        performs [?ins, DistanceBetweenBranches True name, DistanceBetweenBranches False name,
                  Cache (InsertLocalBranchDistances name d)] s" for s
      using Some r by (simp add: loadReference_def Let_def cacheCall_performs d)
    then show ?thesis
      by (intro exI [of _ "[?ins, DistanceBetweenBranches True name,
            DistanceBetweenBranches False name, Cache (InsertLocalBranchDistances name d)]"]) simp
  qed
qed

lemma loadReferenceList_performs:
  "\<exists>t. list_all isReferenceAction t \<and> (\<forall>s. loadReferenceList env refs s = performs t s)"
proof (induction refs)
  case Nil
  show ?case by (intro exI [of _ "[]"]) simp
next
  case (Cons r rs)
  obtain t where t: "list_all isReferenceAction t" "\<And>s. loadReference env r s = performs t s"
    using loadReference_performs by blast
  obtain u where u: "list_all isReferenceAction u" "\<And>s. loadReferenceList env rs s = performs u s"
    using Cons.IH by blast
  show ?case
    by (intro exI [of _ "t @ u"]) (simp add: t u)
qed

lemma loadReferences_performs:
  "\<exists>t. list_all isReferenceAction t \<and> (\<forall>s. loadReferences env s = performs t s)"
proof (cases "success (run env ''git show-ref -d'')")
  case True
  obtain u where u: "list_all isReferenceAction u"
      "\<And>s. loadReferenceList env (split_skip_empty (CHR 0x0A) (output' (run env ''git show-ref -d''))) s = performs u s"
    using loadReferenceList_performs by blast
  show ?thesis
    using True
    by (intro exI [of _ "[Run ''git show-ref -d'', LastCommit] @ u"])
       (simp add: loadReferences_def gitRun_performs record_action_performs u Let_def)
next
  case False
  then show ?thesis
    by (intro exI [of _ "[Run ''git show-ref -d'']"])
       (simp add: loadReferences_def gitRun_performs)
qed

lemma updateWipRevision_actions:
  "updateWipRevision env s =
     performs
       ([Run (untrackedFilesCommand env s),
         Cache (SetUntrackedFilesList
           (split_skip_empty (CHR 0x0A) (output' (run env (untrackedFilesCommand env s))))),
         Run ''git rev-parse --revs-only HEAD'']
        @ (if success (run env ''git rev-parse --revs-only HEAD'') then
             [Run (''git diff-index ''
                   @ trimmed (output' (run env ''git rev-parse --revs-only HEAD''))),
              Run (''git diff-index --cached ''
                   @ trimmed (output' (run env ''git rev-parse --revs-only HEAD''))),
              Cache (UpdateWipCommit
                (trimmed (output' (run env ''git rev-parse --revs-only HEAD'')))
                (if success (run env (''git diff-index ''
                       @ trimmed (output' (run env ''git rev-parse --revs-only HEAD''))))
                 then output' (run env (''git diff-index ''
                       @ trimmed (output' (run env ''git rev-parse --revs-only HEAD''))))
                 else [])
                (if success (run env (''git diff-index --cached ''
                       @ trimmed (output' (run env ''git rev-parse --revs-only HEAD''))))
                 then output' (run env (''git diff-index --cached ''
                       @ trimmed (output' (run env ''git rev-parse --revs-only HEAD''))))
                 else []))]
           else [])) s"
  by (simp add: updateWipRevision_def getUntrackedFiles_performs gitRun_performs
      cacheCall_performs Let_def)

lemma loadReferences_actions:
  "\<exists>rest. list_all isReferenceAction rest
     \<and> (\<forall>s. loadReferences env s = performs (Run ''git show-ref -d'' # rest) s)"
proof (cases "success (run env ''git show-ref -d'')")
  case True
  obtain u where u: "list_all isReferenceAction u"
      "\<And>s. loadReferenceList env
              (split_skip_empty (CHR 0x0A) (output' (run env ''git show-ref -d''))) s = performs u s"
    using loadReferenceList_performs by blast
  show ?thesis
    using True
    by (intro exI [of _ "LastCommit # u"])
       (simp add: loadReferences_def gitRun_performs record_action_performs u Let_def)
next
  case False
  then show ?thesis
    by (intro exI [of _ "[]"]) (simp add: loadReferences_def gitRun_performs)
qed

lemma processRevision_performs:
  "\<exists>wip refs. list_all isWipAction wip \<and> list_all isReferenceAction refs \<and>
     (success (run env ''git rev-parse --revs-only HEAD'') \<longrightarrow>
        (\<exists>t' d c. wip = t' @ [Cache (UpdateWipCommit
            (trimmed (output' (run env ''git rev-parse --revs-only HEAD''))) d c)])) \<and>
     (\<forall>s. processRevision env ba s =
        (performs
          ([Cache (CacheConfigure (length (split_char (CHR 0x00) ba))),
            Emit (LoadingStarted (length (split_char (CHR 0x00) ba))),
            Run (untrackedFilesCommand env s),
            Cache (SetUntrackedFilesList (fst (getUntrackedFiles env s)))]
           @ wip @ commitActions env (split_char (CHR 0x00) ba) 1
           @ [Locked False] @ refs @ [Emit LoadingFinished]) s)\<lparr>mLocked := False\<rparr>)"
proof -
  obtain wip where wip: "list_all isWipAction wip"
     "success (run env ''git rev-parse --revs-only HEAD'') \<longrightarrow>
        (\<exists>t' d c. wip = t' @ [Cache (UpdateWipCommit
            (trimmed (output' (run env ''git rev-parse --revs-only HEAD''))) d c)])"
     "\<And>s. updateWipRevision env s =
          performs ([Run (untrackedFilesCommand env s),
                     Cache (SetUntrackedFilesList (fst (getUntrackedFiles env s)))] @ wip) s"
    using updateWipRevision_performs [of env] by blast
  obtain refs where refs: "list_all isReferenceAction refs"
     "\<And>s. loadReferences env s = performs refs s"
    using loadReferences_performs [of env] by blast
  have "processRevision env ba s =
        (performs
          ([Cache (CacheConfigure (length (split_char (CHR 0x00) ba))),
            Emit (LoadingStarted (length (split_char (CHR 0x00) ba))),
            Run (untrackedFilesCommand env s),
            Cache (SetUntrackedFilesList (fst (getUntrackedFiles env s)))]
           @ wip @ commitActions env (split_char (CHR 0x00) ba) 1
           @ [Locked False] @ refs @ [Emit LoadingFinished]) s)\<lparr>mLocked := False\<rparr>" for s
    by (simp add: processRevision_def Let_def cacheCall_performs emit_performs wip(3) refs(2)
        insertCommits_performs setLocked_performs performs_mLocked_update)
  with wip(1,2) refs(1) show ?thesis by blast
qed

lemma processRevision_commitRecords:
  "commitRecords (mRevCache (processRevision env ba s)) =
     commitRecords (mRevCache s) @
       zip [1 ..< Suc (length (validTokens env (split_char (CHR 0x00) ba)))]
           (map (commitInfo env) (validTokens env (split_char (CHR 0x00) ba)))"
proof -
  obtain wip refs where w: "list_all isWipAction wip" and r: "list_all isReferenceAction refs"
    and p: "processRevision env ba s =
        (performs
          ([Cache (CacheConfigure (length (split_char (CHR 0x00) ba))),
            Emit (LoadingStarted (length (split_char (CHR 0x00) ba))),
            Run (untrackedFilesCommand env s),
            Cache (SetUntrackedFilesList (fst (getUntrackedFiles env s)))]
           @ wip @ commitActions env (split_char (CHR 0x00) ba) 1
           @ [Locked False] @ refs @ [Emit LoadingFinished]) s)\<lparr>mLocked := False\<rparr>"
    using processRevision_performs [of env ba] by blast
  show ?thesis
    by (simp add: p wip_actions_cache [OF w] reference_actions_cache [OF r] commitActions_cache)
qed

lemma processRevision_events:
  "stepEvents (trace (processRevision env ba s)) =
     stepEvents (trace s) @ [1 ..< Suc (length (validTokens env (split_char (CHR 0x00) ba)))]"
  "startedEvents (trace (processRevision env ba s)) =
     startedEvents (trace s) @ [length (split_char (CHR 0x00) ba)]"
proof -
  obtain wip refs where w: "list_all isWipAction wip" and r: "list_all isReferenceAction refs"
    and p: "processRevision env ba s =
        (performs
          ([Cache (CacheConfigure (length (split_char (CHR 0x00) ba))),
            Emit (LoadingStarted (length (split_char (CHR 0x00) ba))),
            Run (untrackedFilesCommand env s),
            Cache (SetUntrackedFilesList (fst (getUntrackedFiles env s)))]
           @ wip @ commitActions env (split_char (CHR 0x00) ba) 1
           @ [Locked False] @ refs @ [Emit LoadingFinished]) s)\<lparr>mLocked := False\<rparr>"
    using processRevision_performs [of env ba] by blast
  show "stepEvents (trace (processRevision env ba s)) =
     stepEvents (trace s) @ [1 ..< Suc (length (validTokens env (split_char (CHR 0x00) ba)))]"
    by (simp add: p wip_actions_events [OF w] reference_actions_events [OF r] commitActions_events)
  show "startedEvents (trace (processRevision env ba s)) =
     startedEvents (trace s) @ [length (split_char (CHR 0x00) ba)]"
    by (simp add: p wip_actions_events [OF w] reference_actions_events [OF r] commitActions_events)
qed

lemma processRevision_inserts:
  "insertCalls (trace (processRevision env ba s)) =
     insertCalls (trace s) @
       zip [1 ..< Suc (length (validTokens env (split_char (CHR 0x00) ba)))]
           (map (commitInfo env) (validTokens env (split_char (CHR 0x00) ba)))"
proof -
  obtain wip refs where w: "list_all isWipAction wip" and r: "list_all isReferenceAction refs"
    and p: "processRevision env ba s =
        (performs
          ([Cache (CacheConfigure (length (split_char (CHR 0x00) ba))),
            Emit (LoadingStarted (length (split_char (CHR 0x00) ba))),
            Run (untrackedFilesCommand env s),
            Cache (SetUntrackedFilesList (fst (getUntrackedFiles env s)))]
           @ wip @ commitActions env (split_char (CHR 0x00) ba) 1
           @ [Locked False] @ refs @ [Emit LoadingFinished]) s)\<lparr>mLocked := False\<rparr>"
    using processRevision_performs [of env ba] by blast
  show ?thesis
    by (simp add: p wip_actions_inserts [OF w] reference_actions_inserts [OF r]
        commitActions_inserts)
qed

lemma processRevision_sameLoadedData:
  assumes "sameLoadedData (mRevCache s) (mRevCache s')"
  shows "sameLoadedData (mRevCache (processRevision env ba s)) (mRevCache (processRevision env ba s'))"
proof -
  obtain wip refs where
    p: "\<And>s. processRevision env ba s =
        (performs
          ([Cache (CacheConfigure (length (split_char (CHR 0x00) ba))),
            Emit (LoadingStarted (length (split_char (CHR 0x00) ba))),
            Run (untrackedFilesCommand env s),
            Cache (SetUntrackedFilesList (fst (getUntrackedFiles env s)))]
           @ wip @ commitActions env (split_char (CHR 0x00) ba) 1
           @ [Locked False] @ refs @ [Emit LoadingFinished]) s)\<lparr>mLocked := False\<rparr>"
    using processRevision_performs [of env ba] by blast
  have "sameLoadedData
      (applyCall (CacheConfigure (length (split_char (CHR 0x00) ba))) (mRevCache s))
      (applyCall (CacheConfigure (length (split_char (CHR 0x00) ba))) (mRevCache s'))"
    using assms by (rule applyCall_sameLoadedData)
  then have "sameLoadedData
      (applyCall (SetUntrackedFilesList (fst (getUntrackedFiles env s)))
        (applyCall (CacheConfigure (length (split_char (CHR 0x00) ba))) (mRevCache s)))
      (applyCall (SetUntrackedFilesList (fst (getUntrackedFiles env s')))
        (applyCall (CacheConfigure (length (split_char (CHR 0x00) ba))) (mRevCache s')))"
    by (rule untracked_sameLoadedData)
  then show ?thesis
    by (simp add: p fold_applyCall_sameLoadedData)
qed

lemma processRevision_same_cache:
  assumes "mRevCache s = mRevCache s'" and "getWorkingDir s = getWorkingDir s'"
  shows "mRevCache (processRevision env ba s) = mRevCache (processRevision env ba s')"
proof -
  obtain wip refs where
    p: "\<And>s. processRevision env ba s =
        (performs
          ([Cache (CacheConfigure (length (split_char (CHR 0x00) ba))),
            Emit (LoadingStarted (length (split_char (CHR 0x00) ba))),
            Run (untrackedFilesCommand env s),
            Cache (SetUntrackedFilesList (fst (getUntrackedFiles env s)))]
           @ wip @ commitActions env (split_char (CHR 0x00) ba) 1
           @ [Locked False] @ refs @ [Emit LoadingFinished]) s)\<lparr>mLocked := False\<rparr>"
    using processRevision_performs [of env ba] by blast
  have "untrackedFilesCommand env s = untrackedFilesCommand env s'"
    using assms(2) by (simp add: untrackedFilesCommand_def)
  then have "fst (getUntrackedFiles env s) = fst (getUntrackedFiles env s')"
    by (simp add: getUntrackedFiles_performs)
  then show ?thesis
    using assms(1) by (simp add: p)
qed

lemma processRevision_frame:
  "\<not> mLocked (processRevision env ba s)"
  "getWorkingDir (processRevision env ba s) = getWorkingDir s"
proof -
  obtain wip refs where
    p: "\<And>s. processRevision env ba s =
        (performs
          ([Cache (CacheConfigure (length (split_char (CHR 0x00) ba))),
            Emit (LoadingStarted (length (split_char (CHR 0x00) ba))),
            Run (untrackedFilesCommand env s),
            Cache (SetUntrackedFilesList (fst (getUntrackedFiles env s)))]
           @ wip @ commitActions env (split_char (CHR 0x00) ba) 1
           @ [Locked False] @ refs @ [Emit LoadingFinished]) s)\<lparr>mLocked := False\<rparr>"
    using processRevision_performs [of env ba] by blast
  show "\<not> mLocked (processRevision env ba s)"
    by (simp add: p)
  show "getWorkingDir (processRevision env ba s) = getWorkingDir s"
    by (simp add: p getWorkingDir_def)
qed

lemma loadRepository_rejected:
  "mLocked s \<or> getWorkingDir s = [] \<Longrightarrow> loadRepository env s = (False, s)"
  by (auto simp: loadRepository_def)

lemma loadRepository_not_a_repository:
  assumes "\<not> mLocked s" and "getWorkingDir s \<noteq> []"
    and "\<not> success (run env ''git rev-parse --show-cdup'')"
  shows "loadRepository env s =
      (False, (performs [Cache CacheClear, Locked True, Run ''git rev-parse --show-cdup''] s)
                \<lparr>mLocked := True\<rparr>)"
  using assms
  by (simp add: loadRepository_def configureRepoDirectory_def Let_def cacheCall_performs
      setLocked_performs gitRun_performs performs_mLocked_update)

lemma loadRepository_started:
  assumes "\<not> mLocked s" and "getWorkingDir s \<noteq> []"
    and "success (run env ''git rev-parse --show-cdup'')"
  shows "fst (loadRepository env s)"
    and "mRevCache (snd (loadRepository env s)) = emptyCache"
    and "mLocked (snd (loadRepository env s))"
    and "getWorkingDir (snd (loadRepository env s)) =
           absolutePath env (getWorkingDir s @ ''/''
             @ trimmed (output' (run env ''git rev-parse --show-cdup'')))"
  using assms
  by (simp_all add: loadRepository_def configureRepoDirectory_def Let_def cacheCall_performs
      setLocked_performs gitRun_performs performs_mLocked_update setWorkingDir_def
      updateCurrentBranch_def requestRevisions_def record_action_def getWorkingDir_def)

lemma loadCycle_alt:
  "loadCycle env ba s =
     (if fst (loadRepository env s) then processRevision env ba (snd (loadRepository env s))
      else snd (loadRepository env s))"
  by (simp add: loadCycle_def case_prod_beta)

lemma loadCycle_started:
  assumes "\<not> mLocked s" and "getWorkingDir s \<noteq> []"
    and "success (run env ''git rev-parse --show-cdup'')"
  shows "loadCycle env ba s = processRevision env ba (snd (loadRepository env s))"
    and "\<not> mLocked (loadCycle env ba s)"
    and "getWorkingDir (loadCycle env ba s) =
           absolutePath env (getWorkingDir s @ ''/''
             @ trimmed (output' (run env ''git rev-parse --show-cdup'')))"
  using loadRepository_started [OF assms]
  by (simp_all add: loadCycle_alt processRevision_frame)

lemma loadCycle_twice:
  "sameLoadedData (mRevCache (loadCycle env ba (loadCycle env ba s)))
                  (mRevCache (loadCycle env ba s))
   \<and> (getWorkingDir (loadCycle env ba (loadCycle env ba s)) = getWorkingDir (loadCycle env ba s)
        \<longrightarrow> mRevCache (loadCycle env ba (loadCycle env ba s)) = mRevCache (loadCycle env ba s))"
proof -
  have refl: "sameLoadedData c c" for c :: "'a RevisionsCache"
    by (simp add: sameLoadedData_def)
  consider (rejected) "mLocked s \<or> getWorkingDir s = []"
    | (failed) "\<not> mLocked s" "getWorkingDir s \<noteq> []"
        "\<not> success (run env ''git rev-parse --show-cdup'')"
    | (started) "\<not> mLocked s" "getWorkingDir s \<noteq> []"
        "success (run env ''git rev-parse --show-cdup'')"
    by blast
  then show ?thesis
  proof cases
    case rejected
    then have "loadCycle env ba s = s"
      by (simp add: loadCycle_alt loadRepository_rejected)
    then show ?thesis by (simp add: refl)
  next
    case failed
    let ?s1 = "(performs [Cache CacheClear, Locked True, Run ''git rev-parse --show-cdup''] s)
                \<lparr>mLocked := True\<rparr>"
    have one: "loadCycle env ba s = ?s1"
      using failed by (simp add: loadCycle_alt loadRepository_not_a_repository)
    have "loadCycle env ba ?s1 = ?s1"
      by (simp add: loadCycle_alt loadRepository_rejected)
    with one show ?thesis by (simp add: refl)
  next
    case started
    let ?a = "snd (loadRepository env s)"
    let ?s1 = "processRevision env ba ?a"
    have one: "loadCycle env ba s = ?s1"
      using loadRepository_started(1) [OF started]
      by (simp add: loadCycle_alt)
    show ?thesis
    proof (cases "getWorkingDir ?s1 = []")
      case True
      then have "loadCycle env ba ?s1 = ?s1"
        by (simp add: loadCycle_alt loadRepository_rejected)
      with one show ?thesis by (simp add: refl)
    next
      case False
      have idle: "\<not> mLocked ?s1"
        by (rule processRevision_frame)
      let ?b = "snd (loadRepository env ?s1)"
      have two: "loadCycle env ba ?s1 = processRevision env ba ?b"
        using loadRepository_started(1) [OF idle False started(3)]
        by (simp add: loadCycle_alt)
      have empty: "mRevCache ?b = mRevCache ?a"
        using loadRepository_started(2) [OF idle False started(3)]
          loadRepository_started(2) [OF started]
        by simp
      then have same: "sameLoadedData (mRevCache (processRevision env ba ?b)) (mRevCache ?s1)"
        by (intro processRevision_sameLoadedData) (simp add: refl)
      have whole: "mRevCache (processRevision env ba ?b) = mRevCache ?s1"
        if "getWorkingDir (processRevision env ba ?b) = getWorkingDir ?s1"
        using that empty
        by (intro processRevision_same_cache) (simp_all add: processRevision_frame)
      from same whole show ?thesis
        by (simp add: one two)
    qed
  qed
qed

section \<open>The claims\<close>

subsection \<open>The load request\<close>

text \<open>
  Claim C1. When no load is in progress, the working directory is set and
  \<^verbatim>\<open>git rev-parse --show-cdup\<close> fails, \<^verbatim>\<open>loadRepository\<close> returns failure. The code has
  set \<^verbatim>\<open>mLocked\<close> at line 37 and does not reset it on this path: the flag is still set
  when the call returns, and the next call is rejected at line 25 without doing anything.
  The claim says that the flag is cleared and that the next call is not rejected as a
  concurrent load.
\<close>

theorem loadRepository_resolution_failure_keeps_lock:
  assumes "\<not> mLocked s" and "getWorkingDir s \<noteq> []"
    and "\<not> success (run env ''git rev-parse --show-cdup'')"
  shows "fst (loadRepository env s) = False
       \<and> mLocked (snd (loadRepository env s))
       \<and> loadRepository env (snd (loadRepository env s)) = (False, snd (loadRepository env s))"
  by (simp add: loadRepository_not_a_repository [OF assms] loadRepository_rejected)

theorem loadRepository_resolution_failure_keeps_lock_witness:
  "\<not> mLocked idleLoader \<and> getWorkingDir idleLoader \<noteq> []
   \<and> \<not> success (run notRepositoryEnv ''git rev-parse --show-cdup'')
   \<and> fst (loadRepository notRepositoryEnv idleLoader) = False
   \<and> mLocked (snd (loadRepository notRepositoryEnv idleLoader))
   \<and> loadRepository notRepositoryEnv (snd (loadRepository notRepositoryEnv idleLoader))
       = (False, snd (loadRepository notRepositoryEnv idleLoader))"
proof -
  have h: "\<not> mLocked idleLoader" "getWorkingDir idleLoader \<noteq> []"
     "\<not> success (run notRepositoryEnv ''git rev-parse --show-cdup'')"
    by (simp_all add: idleLoader_def getWorkingDir_def notRepositoryEnv_def)
  from h loadRepository_resolution_failure_keeps_lock [OF h] show ?thesis by simp
qed

text \<open>
  Claim C4. A call of \<^verbatim>\<open>loadRepository\<close> while a load is in progress returns failure
  and changes nothing: the cache, the flag \<^verbatim>\<open>mLocked\<close>, the working directory and the
  history of actions (so no command is run, no cache call made, no signal emitted) are
  those of the state before the call.
\<close>

theorem loadRepository_locked_no_effect:
  "mLocked s \<Longrightarrow> loadRepository env s = (False, s)"
  by (simp add: loadRepository_def)

theorem loadRepository_locked_no_effect_witness:
  "mLocked busyLoader \<and> loadRepository exampleEnv busyLoader = (False, busyLoader)"
proof -
  have locked: "mLocked busyLoader"
    by (simp add: busyLoader_def)
  from locked loadRepository_locked_no_effect [OF locked] show ?thesis by simp
qed

subsection \<open>The callback on the log output\<close>

text \<open>
  Claim C3. For every buffer, the insertions that \<^verbatim>\<open>processRevision\<close> makes are exactly
  those of the records of the tokens before the first invalid one, in the order of the
  buffer, the \<open>i\<close>-th with sequence index \<open>i\<close> counted from 1 (index 0 is left to the
  pending-changes record); the cache holds these records after what it held before; and
  the step events emitted are exactly \<open>1, \<dots>, k\<close> for these \<open>k\<close> records. No token at or
  after the first invalid one is inserted.
\<close>

theorem processRevision_inserts_valid_prefix:
  "insertCalls (trace (processRevision env ba s)) =
     insertCalls (trace s) @
       zip [1 ..< Suc (length (validTokens env (split_char (CHR 0x00) ba)))]
           (map (commitInfo env) (validTokens env (split_char (CHR 0x00) ba)))
   \<and> commitRecords (mRevCache (processRevision env ba s)) =
     commitRecords (mRevCache s) @
       zip [1 ..< Suc (length (validTokens env (split_char (CHR 0x00) ba)))]
           (map (commitInfo env) (validTokens env (split_char (CHR 0x00) ba)))
   \<and> stepEvents (trace (processRevision env ba s)) =
     stepEvents (trace s) @ [1 ..< Suc (length (validTokens env (split_char (CHR 0x00) ba)))]"
  by (simp only: processRevision_inserts processRevision_commitRecords processRevision_events
      simp_thms)

theorem processRevision_inserts_valid_prefix_witness:
  "insertCalls (trace (processRevision exampleEnv exampleBuffer idleLoader)) =
     [(1, ''c1''), (2, ''c2'')]
   \<and> commitRecords (mRevCache (processRevision exampleEnv exampleBuffer idleLoader)) =
     [(1, ''c1''), (2, ''c2'')]
   \<and> stepEvents (trace (processRevision exampleEnv exampleBuffer idleLoader)) = [1, 2]"
proof -
  have v: "validTokens exampleEnv (split_char (CHR 0x00) exampleBuffer) = [''c1'', ''c2'']"
    by (simp add: validTokens_def exampleBuffer_def exampleEnv_def)
  have u: "[1 ..< Suc (Suc (Suc 0))] = [1, 2]"
    by (simp add: upt_rec)
  from processRevision_inserts_valid_prefix [of exampleEnv exampleBuffer idleLoader] show ?thesis
    by (simp add: v u) (simp add: idleLoader_def emptyCache_def exampleEnv_def)
qed

text \<open>
  Claim C6, as amended. The actions of one call of \<^verbatim>\<open>processRevision\<close> are, in this
  order: the cache is told the total and the loading-started event carries it; the
  untracked files are listed and stored and the HEAD is looked up, and only when that
  lookup succeeds the two \<^verbatim>\<open>diff-index\<close> commands are run and the pending-changes record
  is stored; for each valid token in buffer order, its insertion followed by its step
  event; the write of \<^verbatim>\<open>mLocked\<close> to false; the actions of \<^verbatim>\<open>loadReferences\<close> (exactly
  those it performs from any state, the first being its listing command); the
  loading-finished event. The cache changes by the cache calls among these actions, in
  this order. So, when the HEAD lookup succeeds, the pending-changes record is stored
  before any historical record; the started event precedes every step event; the flag is
  cleared when the insertions have ended (and nowhere else); the references are loaded
  after all insertions; and the finished event is last. When the HEAD lookup fails, no
  pending-changes record is stored.
\<close>

theorem processRevision_order:
  "\<exists>wip refs.
     trace (processRevision env ba s) =
       trace s
       @ [Cache (CacheConfigure (length (split_char (CHR 0x00) ba))),
          Emit (LoadingStarted (length (split_char (CHR 0x00) ba)))]
       @ wip
       @ commitActions env (split_char (CHR 0x00) ba) 1
       @ [Locked False]
       @ refs
       @ [Emit LoadingFinished]
     \<and> (success (run env ''git rev-parse --revs-only HEAD'') \<longrightarrow>
          wip =
            [Run (untrackedFilesCommand env s),
             Cache (SetUntrackedFilesList (fst (getUntrackedFiles env s))),
             Run ''git rev-parse --revs-only HEAD'',
             Run (''git diff-index ''
                  @ trimmed (output' (run env ''git rev-parse --revs-only HEAD''))),
             Run (''git diff-index --cached ''
                  @ trimmed (output' (run env ''git rev-parse --revs-only HEAD''))),
             Cache (UpdateWipCommit
               (trimmed (output' (run env ''git rev-parse --revs-only HEAD'')))
               (if success (run env (''git diff-index ''
                      @ trimmed (output' (run env ''git rev-parse --revs-only HEAD''))))
                then output' (run env (''git diff-index ''
                      @ trimmed (output' (run env ''git rev-parse --revs-only HEAD''))))
                else [])
               (if success (run env (''git diff-index --cached ''
                      @ trimmed (output' (run env ''git rev-parse --revs-only HEAD''))))
                then output' (run env (''git diff-index --cached ''
                      @ trimmed (output' (run env ''git rev-parse --revs-only HEAD''))))
                else []))])
     \<and> (\<not> success (run env ''git rev-parse --revs-only HEAD'') \<longrightarrow>
          wip =
            [Run (untrackedFilesCommand env s),
             Cache (SetUntrackedFilesList (fst (getUntrackedFiles env s))),
             Run ''git rev-parse --revs-only HEAD''])
     \<and> (\<forall>s'. trace (loadReferences env s') = trace s' @ refs)
     \<and> (\<exists>rest. refs = Run ''git show-ref -d'' # rest)
     \<and> list_all isReferenceAction refs
     \<and> mRevCache (processRevision env ba s) =
         fold applyCall
           (cacheCallsOf
              ([Cache (CacheConfigure (length (split_char (CHR 0x00) ba)))]
               @ wip @ commitActions env (split_char (CHR 0x00) ba) 1 @ refs))
           (mRevCache s)
     \<and> \<not> mLocked (processRevision env ba s)"
proof -
  obtain rest where rest: "list_all isReferenceAction rest"
    and refs: "\<And>s. loadReferences env s = performs (Run ''git show-ref -d'' # rest) s"
    using loadReferences_actions [of env] by blast
  let ?refs = "Run ''git show-ref -d'' # rest"
  let ?H = "run env ''git rev-parse --revs-only HEAD''"
  let ?p = "trimmed (output' ?H)"
  let ?short = "[Run (untrackedFilesCommand env s),
             Cache (SetUntrackedFilesList (fst (getUntrackedFiles env s))),
             Run ''git rev-parse --revs-only HEAD'']"
  let ?long = "?short @
            [Run (''git diff-index '' @ ?p),
             Run (''git diff-index --cached '' @ ?p),
             Cache (UpdateWipCommit ?p
               (if success (run env (''git diff-index '' @ ?p))
                then output' (run env (''git diff-index '' @ ?p)) else [])
               (if success (run env (''git diff-index --cached '' @ ?p))
                then output' (run env (''git diff-index --cached '' @ ?p)) else []))]"
  let ?wip = "if success ?H then ?long else ?short"
  have p: "processRevision env ba s =
        (performs
          ([Cache (CacheConfigure (length (split_char (CHR 0x00) ba))),
            Emit (LoadingStarted (length (split_char (CHR 0x00) ba)))]
           @ ?wip @ commitActions env (split_char (CHR 0x00) ba) 1
           @ [Locked False] @ ?refs @ [Emit LoadingFinished]) s)\<lparr>mLocked := False\<rparr>"
    by (simp add: processRevision_def Let_def cacheCall_performs emit_performs
        updateWipRevision_actions refs insertCommits_performs setLocked_performs
        performs_mLocked_update getUntrackedFiles_performs)
  have tr: "trace (processRevision env ba s) =
       trace s
       @ [Cache (CacheConfigure (length (split_char (CHR 0x00) ba))),
          Emit (LoadingStarted (length (split_char (CHR 0x00) ba)))]
       @ ?wip
       @ commitActions env (split_char (CHR 0x00) ba) 1
       @ [Locked False]
       @ ?refs
       @ [Emit LoadingFinished]"
    by (simp add: p)
  have yes: "success ?H \<longrightarrow> ?wip = ?long"
    by simp
  have no: "\<not> success ?H \<longrightarrow> ?wip = ?short"
    by simp
  have every: "\<forall>s'. trace (loadReferences env s') = trace s' @ ?refs"
    by (simp add: refs)
  have first: "\<exists>rest'. ?refs = Run ''git show-ref -d'' # rest'"
    by blast
  have kind: "list_all isReferenceAction ?refs"
    using rest by simp
  have cache: "mRevCache (processRevision env ba s) =
         fold applyCall
           (cacheCallsOf
              ([Cache (CacheConfigure (length (split_char (CHR 0x00) ba)))]
               @ ?wip @ commitActions env (split_char (CHR 0x00) ba) 1 @ ?refs))
           (mRevCache s)"
    by (simp add: p)
  have unlocked: "\<not> mLocked (processRevision env ba s)"
    by (simp add: p)
  show ?thesis
    apply (rule exI [of _ ?wip], rule exI [of _ ?refs])
    using tr yes no every first kind cache unlocked
    apply (simp only: append_Cons append_Nil)
    apply blast
    done
qed

theorem processRevision_order_witness:
  "success (run exampleEnv ''git rev-parse --revs-only HEAD'')
   \<and> (\<exists>rest.
        trace (processRevision exampleEnv exampleBuffer idleLoader) =
          [Cache (CacheConfigure 4), Emit (LoadingStarted 4),
           Run ''git ls-files --others --exclude-per-directory=$.gitignore$'',
           Cache (SetUntrackedFilesList [''foo.txt'', ''foo.txt'']),
           Run ''git rev-parse --revs-only HEAD'',
           Run (''git diff-index '' @ sha_a),
           Run (''git diff-index --cached '' @ sha_a),
           Cache (UpdateWipCommit sha_a [] []),
           Cache (InsertCommitInfo ''c1'' 1), Emit (LoadingStep 1),
           Cache (InsertCommitInfo ''c2'' 2), Emit (LoadingStep 2),
           Locked False, Run ''git show-ref -d'']
          @ rest @ [Emit LoadingFinished])
   \<and> \<not> success (run notRepositoryEnv ''git rev-parse --revs-only HEAD'')
   \<and> (\<exists>rest.
        trace (processRevision notRepositoryEnv exampleBuffer idleLoader) =
          [Cache (CacheConfigure 4), Emit (LoadingStarted 4),
           Run ''git ls-files --others --exclude-per-directory=$.gitignore$'',
           Cache (SetUntrackedFilesList [''fatal: not a git repository'']),
           Run ''git rev-parse --revs-only HEAD'',
           Cache (InsertCommitInfo ''c1'' 1), Emit (LoadingStep 1),
           Cache (InsertCommitInfo ''c2'' 2), Emit (LoadingStep 2),
           Locked False, Run ''git show-ref -d'']
          @ rest @ [Emit LoadingFinished])"
proof -
  have ok: "success (run exampleEnv ''git rev-parse --revs-only HEAD'')"
    by (simp add: exampleEnv_def exampleOutput_def)
  have ko: "\<not> success (run notRepositoryEnv ''git rev-parse --revs-only HEAD'')"
    by (simp add: notRepositoryEnv_def)
  have n: "length (split_char (CHR 0x00) exampleBuffer) = 4"
    by (simp add: exampleBuffer_def)
  have v: "validTokens exampleEnv (split_char (CHR 0x00) exampleBuffer) = [''c1'', ''c2'']"
      "validTokens notRepositoryEnv (split_char (CHR 0x00) exampleBuffer) = [''c1'', ''c2'']"
    by (simp_all add: validTokens_def exampleBuffer_def exampleEnv_def notRepositoryEnv_def)
  have c: "commitActions exampleEnv (split_char (CHR 0x00) exampleBuffer) 1 =
       [Cache (InsertCommitInfo ''c1'' 1), Emit (LoadingStep 1),
        Cache (InsertCommitInfo ''c2'' 2), Emit (LoadingStep 2)]"
      "commitActions notRepositoryEnv (split_char (CHR 0x00) exampleBuffer) 1 =
       [Cache (InsertCommitInfo ''c1'' 1), Emit (LoadingStep 1),
        Cache (InsertCommitInfo ''c2'' 2), Emit (LoadingStep 2)]"
    by (simp_all add: commitActions_def v upt_rec)
       (simp_all add: exampleEnv_def notRepositoryEnv_def)
  have t: "trace idleLoader = []"
    by (simp add: idleLoader_def)
  have cmd: "untrackedFilesCommand exampleEnv idleLoader =
        ''git ls-files --others --exclude-per-directory=$.gitignore$''"
      "untrackedFilesCommand notRepositoryEnv idleLoader =
        ''git ls-files --others --exclude-per-directory=$.gitignore$''"
    by (simp_all add: untrackedFilesCommand_def exampleEnv_def notRepositoryEnv_def)
  have files: "fst (getUntrackedFiles exampleEnv idleLoader) = [''foo.txt'', ''foo.txt'']"
      "fst (getUntrackedFiles notRepositoryEnv idleLoader) = [''fatal: not a git repository'']"
    by (simp_all add: getUntrackedFiles_performs cmd split_skip_empty_def)
       (simp_all add: exampleEnv_def exampleOutput_def notRepositoryEnv_def)
  have p: "trimmed (output' (run exampleEnv ''git rev-parse --revs-only HEAD'')) = sha_a"
    by (simp add: exampleEnv_def exampleOutput_def trimmed_def sha_a_def isSpace_def)
  have d: "\<not> success (run exampleEnv (''git diff-index '' @ sha_a))"
      "\<not> success (run exampleEnv (''git diff-index --cached '' @ sha_a))"
    by (simp_all add: exampleEnv_def exampleOutput_def sha_a_def)
  obtain wip refs rest where one:
      "trace (processRevision exampleEnv exampleBuffer idleLoader) =
         trace idleLoader
         @ [Cache (CacheConfigure (length (split_char (CHR 0x00) exampleBuffer))),
            Emit (LoadingStarted (length (split_char (CHR 0x00) exampleBuffer)))]
         @ wip @ commitActions exampleEnv (split_char (CHR 0x00) exampleBuffer) 1
         @ [Locked False] @ refs @ [Emit LoadingFinished]"
      "wip = [Run (untrackedFilesCommand exampleEnv idleLoader),
             Cache (SetUntrackedFilesList (fst (getUntrackedFiles exampleEnv idleLoader))),
             Run ''git rev-parse --revs-only HEAD'',
             Run (''git diff-index ''
                  @ trimmed (output' (run exampleEnv ''git rev-parse --revs-only HEAD''))),
             Run (''git diff-index --cached ''
                  @ trimmed (output' (run exampleEnv ''git rev-parse --revs-only HEAD''))),
             Cache (UpdateWipCommit
               (trimmed (output' (run exampleEnv ''git rev-parse --revs-only HEAD'')))
               (if success (run exampleEnv (''git diff-index ''
                      @ trimmed (output' (run exampleEnv ''git rev-parse --revs-only HEAD''))))
                then output' (run exampleEnv (''git diff-index ''
                      @ trimmed (output' (run exampleEnv ''git rev-parse --revs-only HEAD''))))
                else [])
               (if success (run exampleEnv (''git diff-index --cached ''
                      @ trimmed (output' (run exampleEnv ''git rev-parse --revs-only HEAD''))))
                then output' (run exampleEnv (''git diff-index --cached ''
                      @ trimmed (output' (run exampleEnv ''git rev-parse --revs-only HEAD''))))
                else []))]"
      "refs = Run ''git show-ref -d'' # rest"
    using processRevision_order [of exampleEnv exampleBuffer idleLoader] ok by blast
  have first: "\<exists>rest.
        trace (processRevision exampleEnv exampleBuffer idleLoader) =
          [Cache (CacheConfigure 4), Emit (LoadingStarted 4),
           Run ''git ls-files --others --exclude-per-directory=$.gitignore$'',
           Cache (SetUntrackedFilesList [''foo.txt'', ''foo.txt'']),
           Run ''git rev-parse --revs-only HEAD'',
           Run (''git diff-index '' @ sha_a),
           Run (''git diff-index --cached '' @ sha_a),
           Cache (UpdateWipCommit sha_a [] []),
           Cache (InsertCommitInfo ''c1'' 1), Emit (LoadingStep 1),
           Cache (InsertCommitInfo ''c2'' 2), Emit (LoadingStep 2),
           Locked False, Run ''git show-ref -d'']
          @ rest @ [Emit LoadingFinished]"
    unfolding one n c(1) t cmd(1) files(1) p using d by (intro exI [of _ rest]) simp
  obtain wip' refs' rest' where two:
      "trace (processRevision notRepositoryEnv exampleBuffer idleLoader) =
         trace idleLoader
         @ [Cache (CacheConfigure (length (split_char (CHR 0x00) exampleBuffer))),
            Emit (LoadingStarted (length (split_char (CHR 0x00) exampleBuffer)))]
         @ wip' @ commitActions notRepositoryEnv (split_char (CHR 0x00) exampleBuffer) 1
         @ [Locked False] @ refs' @ [Emit LoadingFinished]"
      "wip' = [Run (untrackedFilesCommand notRepositoryEnv idleLoader),
             Cache (SetUntrackedFilesList (fst (getUntrackedFiles notRepositoryEnv idleLoader))),
             Run ''git rev-parse --revs-only HEAD'']"
      "refs' = Run ''git show-ref -d'' # rest'"
    using processRevision_order [of notRepositoryEnv exampleBuffer idleLoader] ko by blast
  have second: "\<exists>rest.
        trace (processRevision notRepositoryEnv exampleBuffer idleLoader) =
          [Cache (CacheConfigure 4), Emit (LoadingStarted 4),
           Run ''git ls-files --others --exclude-per-directory=$.gitignore$'',
           Cache (SetUntrackedFilesList [''fatal: not a git repository'']),
           Run ''git rev-parse --revs-only HEAD'',
           Cache (InsertCommitInfo ''c1'' 1), Emit (LoadingStep 1),
           Cache (InsertCommitInfo ''c2'' 2), Emit (LoadingStep 2),
           Locked False, Run ''git show-ref -d'']
          @ rest @ [Emit LoadingFinished]"
    unfolding two n c(2) t cmd(2) files(2) by (intro exI [of _ rest']) simp
  from ok first ko second show ?thesis
    by blast
qed

text \<open>
  The claim as stated fails: where the HEAD lookup fails, two historical records are
  inserted and no pending-changes record is stored before them, nor at all.
\<close>

theorem processRevision_without_pending_changes_counterexample:
  "trace (processRevision notRepositoryEnv exampleBuffer idleLoader) =
     [Cache (CacheConfigure 4), Emit (LoadingStarted 4),
      Run ''git ls-files --others --exclude-per-directory=$.gitignore$'',
      Cache (SetUntrackedFilesList [''fatal: not a git repository'']),
      Run ''git rev-parse --revs-only HEAD'',
      Cache (InsertCommitInfo ''c1'' 1), Emit (LoadingStep 1),
      Cache (InsertCommitInfo ''c2'' 2), Emit (LoadingStep 2),
      Locked False, Run ''git show-ref -d'', Emit LoadingFinished]
   \<and> wipCommit (mRevCache (processRevision notRepositoryEnv exampleBuffer idleLoader)) = None
   \<and> commitRecords (mRevCache (processRevision notRepositoryEnv exampleBuffer idleLoader)) =
       [(1, ''c1''), (2, ''c2'')]"
  by (simp add: processRevision_def updateWipRevision_def getUntrackedFiles_def
      untrackedFilesCommand_def loadReferences_def gitRun_def cacheCall_def emit_def
      setLocked_def record_action_def split_skip_empty_def Let_def getWorkingDir_def
      notRepositoryEnv_def exampleEnv_def exampleBuffer_def idleLoader_def emptyCache_def)

text \<open>
  Claim C10. The loading-started event carries the number of tokens of the buffer, which
  is one more than the number of NUL bytes in it: empty tokens (a terminating NUL gives
  one) and invalid tokens are counted. The records inserted and the step events emitted
  are as many as the tokens before the first invalid one, never more than the total, and
  fewer whenever the buffer has an invalid token.
\<close>

theorem loadingStarted_total_counts_tokens:
  "startedEvents (trace (processRevision env ba s)) =
     startedEvents (trace s) @ [length (split_char (CHR 0x00) ba)]
   \<and> length (split_char (CHR 0x00) ba) = Suc (count_list ba (CHR 0x00))
   \<and> length (insertCalls (trace (processRevision env ba s))) =
       length (insertCalls (trace s)) + length (validTokens env (split_char (CHR 0x00) ba))
   \<and> length (commitRecords (mRevCache (processRevision env ba s))) =
       length (commitRecords (mRevCache s)) + length (validTokens env (split_char (CHR 0x00) ba))
   \<and> length (stepEvents (trace (processRevision env ba s))) =
       length (stepEvents (trace s)) + length (validTokens env (split_char (CHR 0x00) ba))
   \<and> length (validTokens env (split_char (CHR 0x00) ba)) \<le> length (split_char (CHR 0x00) ba)
   \<and> ((\<exists>token \<in> set (split_char (CHR 0x00) ba). \<not> isValid env (commitInfo env token)) \<longrightarrow>
        length (validTokens env (split_char (CHR 0x00) ba)) < length (split_char (CHR 0x00) ba))"
proof -
  let ?tokens = "split_char (CHR 0x00) ba"
  let ?k = "length (validTokens env ?tokens)"
  have len: "length [1 ..< Suc ?k] = ?k"
    by (simp del: upt_Suc)
  have records: "length (commitRecords (mRevCache (processRevision env ba s))) =
       length (commitRecords (mRevCache s)) + ?k"
    by (simp only: processRevision_commitRecords length_append length_zip length_map len min.idem)
  have steps: "length (stepEvents (trace (processRevision env ba s))) =
       length (stepEvents (trace s)) + ?k"
    by (simp only: processRevision_events length_append len)
  have inserts: "length (insertCalls (trace (processRevision env ba s))) =
       length (insertCalls (trace s)) + ?k"
    by (simp only: processRevision_inserts length_append length_zip length_map len min.idem)
  have strict: "(\<exists>token \<in> set ?tokens. \<not> isValid env (commitInfo env token)) \<longrightarrow>
        ?k < length ?tokens"
    using validTokens_length_less [of ?tokens env] by blast
  from inserts records steps strict show ?thesis
    by (simp add: processRevision_events length_split_char [symmetric] validTokens_length)
qed

theorem loadingStarted_total_counts_tokens_witness:
  "(\<exists>token \<in> set (split_char (CHR 0x00) exampleBuffer). \<not> isValid exampleEnv (commitInfo exampleEnv token))
   \<and> startedEvents (trace (processRevision exampleEnv exampleBuffer idleLoader)) = [4]
   \<and> length (insertCalls (trace (processRevision exampleEnv exampleBuffer idleLoader))) = 2
   \<and> length (commitRecords (mRevCache (processRevision exampleEnv exampleBuffer idleLoader))) = 2
   \<and> length (stepEvents (trace (processRevision exampleEnv exampleBuffer idleLoader))) = 2"
proof -
  have bad: "\<exists>token \<in> set (split_char (CHR 0x00) exampleBuffer).
      \<not> isValid exampleEnv (commitInfo exampleEnv token)"
    by (simp add: exampleBuffer_def exampleEnv_def)
  have n: "length (split_char (CHR 0x00) exampleBuffer) = 4"
    by (simp add: exampleBuffer_def)
  have v: "validTokens exampleEnv (split_char (CHR 0x00) exampleBuffer) = [''c1'', ''c2'']"
    by (simp add: validTokens_def exampleBuffer_def exampleEnv_def)
  from loadingStarted_total_counts_tokens [of exampleEnv exampleBuffer idleLoader] bad
  show ?thesis
    unfolding n v by (simp add: idleLoader_def emptyCache_def)
qed

subsection \<open>The pending changes\<close>

text \<open>
  Claim C5, as amended. \<^verbatim>\<open>getUntrackedFiles\<close> returns the non-empty parts of the
  command's output split at the newlines, in the order of the output; it removes no
  duplicate. It runs one command: \<^verbatim>\<open>git ls-files --others\<close>, then the
  \<^verbatim>\<open>--exclude-from\<close> argument exactly when the file \<^verbatim>\<open>.git/info/exclude\<close> exists under the
  working directory, then always the \<^verbatim>\<open>--exclude-per-directory\<close> argument for
  \<^verbatim>\<open>.gitignore\<close>.
\<close>

theorem getUntrackedFiles_result:
  "fst (getUntrackedFiles env s) =
     filter (\<lambda>p. p \<noteq> []) (split_char (CHR 0x0A) (output' (run env (untrackedFilesCommand env s))))
   \<and> joinWith (CHR 0x0A) (split_char (CHR 0x0A) (output' (run env (untrackedFilesCommand env s))))
       = output' (run env (untrackedFilesCommand env s))
   \<and> (\<forall>p \<in> set (split_char (CHR 0x0A) (output' (run env (untrackedFilesCommand env s)))).
         CHR 0x0A \<notin> set p)
   \<and> trace (snd (getUntrackedFiles env s)) = trace s @ [Run (untrackedFilesCommand env s)]
   \<and> untrackedFilesCommand env s =
       ''git ls-files --others''
       @ (if fileExists env (getWorkingDir s @ ''/.git/info/exclude'')
          then '' --exclude-from=$.git/info/exclude$'' else [])
       @ '' --exclude-per-directory=$.gitignore$''"
  by (simp add: getUntrackedFiles_performs split_skip_empty_def joinWith_split_char
      split_char_parts untrackedFilesCommand_def)

theorem getUntrackedFiles_result_witness:
  "fst (getUntrackedFiles exampleEnv idleLoader) = [''foo.txt'', ''foo.txt'']
   \<and> \<not> fileExists exampleEnv (getWorkingDir idleLoader @ ''/.git/info/exclude'')
   \<and> untrackedFilesCommand exampleEnv idleLoader =
        ''git ls-files --others --exclude-per-directory=$.gitignore$''
   \<and> fileExists excludeFileEnv (getWorkingDir idleLoader @ ''/.git/info/exclude'')
   \<and> untrackedFilesCommand excludeFileEnv idleLoader =
        ''git ls-files --others --exclude-from=$.git/info/exclude$ --exclude-per-directory=$.gitignore$''"
proof -
  have no: "\<not> fileExists exampleEnv (getWorkingDir idleLoader @ ''/.git/info/exclude'')"
    by (simp add: exampleEnv_def)
  have yes: "fileExists excludeFileEnv (getWorkingDir idleLoader @ ''/.git/info/exclude'')"
    by (simp add: excludeFileEnv_def exampleEnv_def idleLoader_def getWorkingDir_def)
  have cmd: "untrackedFilesCommand exampleEnv idleLoader =
        ''git ls-files --others --exclude-per-directory=$.gitignore$''"
    using getUntrackedFiles_result [of exampleEnv idleLoader] no by simp
  have out: "output' (run exampleEnv ''git ls-files --others --exclude-per-directory=$.gitignore$'')
      = ''foo.txt'' @ [CHR 0x0A] @ ''foo.txt'' @ [CHR 0x0A]"
    by (simp add: exampleEnv_def exampleOutput_def)
  have files: "fst (getUntrackedFiles exampleEnv idleLoader) = [''foo.txt'', ''foo.txt'']"
    using getUntrackedFiles_result [of exampleEnv idleLoader]
    unfolding cmd out by simp
  have cmd': "untrackedFilesCommand excludeFileEnv idleLoader =
        ''git ls-files --others --exclude-from=$.git/info/exclude$ --exclude-per-directory=$.gitignore$''"
    using getUntrackedFiles_result [of excludeFileEnv idleLoader] yes by simp
  from files no cmd yes cmd' show ?thesis by blast
qed

text \<open>
  The claim as stated fails: when the listing names a file twice, so does the result.
\<close>

theorem untracked_files_duplicates_counterexample:
  "\<not> distinct (fst (getUntrackedFiles exampleEnv idleLoader))"
  by (simp add: getUntrackedFiles_def gitRun_def untrackedFilesCommand_def exampleEnv_def
      exampleOutput_def split_skip_empty_def Let_def idleLoader_def getWorkingDir_def)

subsection \<open>The references\<close>

text \<open>
  Claim C2, as amended. A line \<^verbatim>\<open>refs/tags/<name>^{}\<close> is stored as a tag named with
  every marker \<^verbatim>\<open>^{}\<close> removed, which is \<^verbatim>\<open><name>\<close> when \<^verbatim>\<open><name>\<close> holds no marker. A
  line under \<^verbatim>\<open>refs/tags/\<close> that does not end in the marker is skipped: the loader does
  nothing for it, whether or not a dereferenced line of the same tag exists.
\<close>

theorem tag_lines_classification:
  assumes "length sha = 40"
  shows "loadReference env (sha @ '' refs/tags/'' @ base @ ''^{}'') s =
           cacheCall (InsertReference sha Tag (remove_str (base @ ''^{}'') ''^{}'')) s
       \<and> (\<not> contains base ''^{}'' \<longrightarrow>
            loadReference env (sha @ '' refs/tags/'' @ base @ ''^{}'') s =
              cacheCall (InsertReference sha Tag base) s)
       \<and> (\<not> endsWith name ''^{}'' \<longrightarrow>
            loadReference env (sha @ '' refs/tags/'' @ name) s = s)"
proof -
  have deref: "loadReference env (sha @ '' refs/tags/'' @ base @ ''^{}'') s =
           cacheCall (InsertReference sha Tag (remove_str (base @ ''^{}'') ''^{}'')) s"
    using assms by (rule loadReference_tag_dereferenced)
  moreover have "loadReference env (sha @ '' refs/tags/'' @ base @ ''^{}'') s =
              cacheCall (InsertReference sha Tag base) s" if "\<not> contains base ''^{}''"
    using deref remove_marker_at_end [OF that] by (simp only:)
  moreover have "loadReference env (sha @ '' refs/tags/'' @ name) s = s"
    if "\<not> endsWith name ''^{}''"
    using that assms by (rule loadReference_tag_plain)
  ultimately show ?thesis
    by blast
qed

theorem tag_lines_classification_witness:
  "length sha_a = 40 \<and> \<not> contains ''v1'' ''^{}'' \<and> \<not> endsWith ''v1'' ''^{}''
   \<and> loadReference exampleEnv (sha_a @ '' refs/tags/v1^{}'') idleLoader =
       cacheCall (InsertReference sha_a Tag ''v1'') idleLoader
   \<and> loadReference exampleEnv (sha_a @ '' refs/tags/v1'') idleLoader = idleLoader"
proof -
  have h: "length sha_a = 40" "\<not> contains ''v1'' ''^{}''" "\<not> endsWith ''v1'' ''^{}''"
    by (simp_all add: sha_a_def startsWith_def endsWith_def)
  from h tag_lines_classification [OF h(1), of exampleEnv "''v1''" idleLoader "''v1''"]
  show ?thesis by (simp add: startsWith_def endsWith_def)
qed

text \<open>
  The claim as stated fails: for a listing whose only line is a plain tag line (so the
  tag has no dereferenced counterpart) the loader runs the listing command, asks for the
  last commit and stores nothing.
\<close>

theorem plain_tag_line_counterexample:
  "trace (loadReferences (listingEnv (sha_a @ '' refs/tags/v1'' @ [CHR 0x0A])) idleLoader) =
     [Run ''git show-ref -d'', LastCommit]
   \<and> (sha_a, Tag, ''v1'') \<notin> set (references (mRevCache
        (loadReferences (listingEnv (sha_a @ '' refs/tags/v1'' @ [CHR 0x0A])) idleLoader)))"
  by (simp add: loadReferences_def gitRun_def listingEnv_def exampleEnv_def record_action_def
      split_skip_empty_def sha_a_def loadReference_def Let_def left_def mid_def startsWith_def
      endsWith_def idleLoader_def emptyCache_def)

text \<open>
  Claim C7, as amended. A line \<^verbatim>\<open>refs/heads/<name>\<close> is stored as the local branch
  \<^verbatim>\<open><name>\<close> (and its distances are then loaded). A line \<^verbatim>\<open>refs/remotes/<rest>\<close> is
  stored as the remote branch \<^verbatim>\<open><rest>\<close> when \<^verbatim>\<open><rest>\<close> does not end in the four
  characters \<^verbatim>\<open>HEAD\<close>, and is skipped when it does: the alias
  \<^verbatim>\<open>refs/remotes/<remote>/HEAD\<close> is skipped, and so is every other remote branch whose
  name ends in \<^verbatim>\<open>HEAD\<close>.
\<close>

theorem branch_lines_classification:
  assumes "length sha = 40"
  shows "loadReference env (sha @ '' refs/heads/'' @ name) s =
           loadDistances env name (cacheCall (InsertReference sha LocalBranch name) s)
       \<and> (\<not> endsWith remoteName ''HEAD'' \<longrightarrow>
            loadReference env (sha @ '' refs/remotes/'' @ remoteName) s =
              cacheCall (InsertReference sha RemoteBranches remoteName) s)
       \<and> (endsWith remoteName ''HEAD'' \<longrightarrow>
            loadReference env (sha @ '' refs/remotes/'' @ remoteName) s = s)"
proof -
  have "loadReference env (sha @ '' refs/heads/'' @ name) s =
           loadDistances env name (cacheCall (InsertReference sha LocalBranch name) s)"
    using assms by (rule loadReference_local_branch)
  moreover have "loadReference env (sha @ '' refs/remotes/'' @ remoteName) s =
              cacheCall (InsertReference sha RemoteBranches remoteName) s"
    if "\<not> endsWith remoteName ''HEAD''"
    using loadReference_remote [OF assms, of env remoteName s] that by (simp only: if_False)
  moreover have "loadReference env (sha @ '' refs/remotes/'' @ remoteName) s = s"
    if "endsWith remoteName ''HEAD''"
    using loadReference_remote [OF assms, of env remoteName s] that by (simp only: if_True)
  ultimately show ?thesis
    by blast
qed

theorem branch_lines_classification_witness:
  "length sha_a = 40 \<and> \<not> endsWith ''origin/main'' ''HEAD'' \<and> endsWith ''origin/HEAD'' ''HEAD''
   \<and> loadReference exampleEnv (sha_a @ '' refs/heads/main'') idleLoader =
       loadDistances exampleEnv ''main'' (cacheCall (InsertReference sha_a LocalBranch ''main'') idleLoader)
   \<and> loadReference exampleEnv (sha_a @ '' refs/remotes/origin/main'') idleLoader =
       cacheCall (InsertReference sha_a RemoteBranches ''origin/main'') idleLoader
   \<and> loadReference exampleEnv (sha_a @ '' refs/remotes/origin/HEAD'') idleLoader = idleLoader"
proof -
  have h: "length sha_a = 40" "\<not> endsWith ''origin/main'' ''HEAD''"
      "endsWith ''origin/HEAD'' ''HEAD''"
    by (simp_all add: sha_a_def endsWith_def)
  from h branch_lines_classification [OF h(1), of exampleEnv "''main''" idleLoader "''origin/main''"]
    branch_lines_classification [OF h(1), of exampleEnv "''main''" idleLoader "''origin/HEAD''"]
  show ?thesis by (simp add: endsWith_def)
qed

text \<open>
  The claim as stated fails: the remote branch \<^verbatim>\<open>origin/fixHEAD\<close> is not the alias
  \<^verbatim>\<open>origin/HEAD\<close>, and for a listing that holds it the loader stores nothing.
\<close>

theorem remote_branch_ending_in_HEAD_counterexample:
  "trace (loadReferences (listingEnv (sha_a @ '' refs/remotes/origin/fixHEAD'' @ [CHR 0x0A]))
       idleLoader) =
     [Run ''git show-ref -d'', LastCommit]
   \<and> (sha_a, RemoteBranches, ''origin/fixHEAD'') \<notin> set (references (mRevCache
        (loadReferences (listingEnv (sha_a @ '' refs/remotes/origin/fixHEAD'' @ [CHR 0x0A]))
           idleLoader)))"
  by (simp add: loadReferences_def gitRun_def listingEnv_def exampleEnv_def record_action_def
      split_skip_empty_def sha_a_def loadReference_def referenceTypeAndName_def Let_def left_def
      mid_def startsWith_def endsWith_def idleLoader_def emptyCache_def)

text \<open>
  Claim C8. For a line \<^verbatim>\<open>refs/heads/<name>\<close> the loader stores the local branch, asks
  for the distance to master and for the distance to origin, and stores one record of
  distances for \<^verbatim>\<open><name>\<close>. For the comparison with master and for the comparison with origin
  alike: when the output of the distance command, newlines aside, is a number below
  \<open>2^32\<close>, a tab and a second such number, the first is stored as the behind count and
  the second as the ahead count; when the output contains \<^verbatim>\<open>fatal\<close>, both counts are 0.
  No error is raised in either case.
\<close>

theorem local_branch_distances:
  assumes "length sha = 40"
  shows "\<exists>d. trace (loadReference env (sha @ '' refs/heads/'' @ name) s) =
              trace s @ [Cache (InsertReference sha LocalBranch name),
                         DistanceBetweenBranches True name, DistanceBetweenBranches False name,
                         Cache (InsertLocalBranchDistances name d)]
     \<and> distances (mRevCache (loadReference env (sha @ '' refs/heads/'' @ name) s)) =
              distances (mRevCache s) @ [(name, d)]
     \<and> (\<forall>behind ahead.
           behind < 2 ^ 32 \<and> ahead < 2 ^ 32
           \<and> replace_empty (CHR 0x0A) (output' (getDistanceBetweenBranches env True name)) =
               decimalText behind @ [CHR 0x09] @ decimalText ahead
           \<longrightarrow> behindMaster d = behind \<and> aheadMaster d = ahead)
     \<and> (contains (output' (getDistanceBetweenBranches env True name)) ''fatal''
           \<longrightarrow> behindMaster d = 0 \<and> aheadMaster d = 0)
     \<and> (\<forall>behind ahead.
           behind < 2 ^ 32 \<and> ahead < 2 ^ 32
           \<and> replace_empty (CHR 0x0A) (output' (getDistanceBetweenBranches env False name)) =
               decimalText behind @ [CHR 0x09] @ decimalText ahead
           \<longrightarrow> behindOrigin d = behind \<and> aheadOrigin d = ahead)
     \<and> (contains (output' (getDistanceBetweenBranches env False name)) ''fatal''
           \<longrightarrow> behindOrigin d = 0 \<and> aheadOrigin d = 0)"
proof -
  let ?outM = "output' (getDistanceBetweenBranches env True name)"
  let ?outO = "output' (getDistanceBetweenBranches env False name)"
  obtain d where eff: "\<And>s. loadDistances env name s =
            performs [DistanceBetweenBranches True name, DistanceBetweenBranches False name,
                      Cache (InsertLocalBranchDistances name d)] s"
    and m: "if contains ?outM ''fatal''
         then behindMaster d = 0 \<and> aheadMaster d = 0
         else behindMaster d = toUInt (hd (split_char (CHR 0x09) (replace_empty (CHR 0x0A) ?outM)))
            \<and> aheadMaster d = toUInt (last (split_char (CHR 0x09) (replace_empty (CHR 0x0A) ?outM)))"
    and o: "if contains ?outO ''fatal''
         then behindOrigin d = 0 \<and> aheadOrigin d = 0
         else behindOrigin d = toUInt (hd (split_char (CHR 0x09) (replace_empty (CHR 0x0A) ?outO)))
            \<and> aheadOrigin d = toUInt (last (split_char (CHR 0x09) (replace_empty (CHR 0x0A) ?outO)))"
    using loadDistances_result [of env name] by blast
  have stored: "distances (mRevCache (loadReference env (sha @ '' refs/heads/'' @ name) s)) =
              distances (mRevCache s) @ [(name, d)]"
    unfolding loadReference_local_branch [OF assms] eff cacheCall_performs
    by simp
  have master: "behindMaster d = behind \<and> aheadMaster d = ahead"
    if "behind < 2 ^ 32 \<and> ahead < 2 ^ 32
        \<and> replace_empty (CHR 0x0A) ?outM = decimalText behind @ [CHR 0x09] @ decimalText ahead"
    for behind ahead
    using that m distance_output_parsed [of ?outM behind ahead]
    by (simp add: toUInt_decimalText)
  have origin: "behindOrigin d = behind \<and> aheadOrigin d = ahead"
    if "behind < 2 ^ 32 \<and> ahead < 2 ^ 32
        \<and> replace_empty (CHR 0x0A) ?outO = decimalText behind @ [CHR 0x09] @ decimalText ahead"
    for behind ahead
    using that o distance_output_parsed [of ?outO behind ahead]
    by (simp add: toUInt_decimalText)
  have masterFatal: "contains ?outM ''fatal'' \<longrightarrow> behindMaster d = 0 \<and> aheadMaster d = 0"
    using m by (simp split: if_splits)
  have originFatal: "contains ?outO ''fatal'' \<longrightarrow> behindOrigin d = 0 \<and> aheadOrigin d = 0"
    using o by (simp split: if_splits)
  have called: "trace (loadReference env (sha @ '' refs/heads/'' @ name) s) =
              trace s @ [Cache (InsertReference sha LocalBranch name),
                         DistanceBetweenBranches True name, DistanceBetweenBranches False name,
                         Cache (InsertLocalBranchDistances name d)]"
    using assms eff by (rule loadReference_local_branch_trace)
  from called stored master origin masterFatal originFatal show ?thesis
    by blast
qed

theorem local_branch_distances_witness:
  "length sha_a = 40
   \<and> replace_empty (CHR 0x0A) (output' (getDistanceBetweenBranches distancesEnv True ''main'')) =
       decimalText 2 @ [CHR 0x09] @ decimalText 5
   \<and> contains (output' (getDistanceBetweenBranches distancesEnv False ''main'')) ''fatal''
   \<and> (\<exists>d. distances (mRevCache (loadReference distancesEnv (sha_a @ '' refs/heads/main'') idleLoader))
            = [(''main'', d)]
          \<and> behindMaster d = 2 \<and> aheadMaster d = 5 \<and> behindOrigin d = 0 \<and> aheadOrigin d = 0)
   \<and> contains (output' (getDistanceBetweenBranches distancesEnv True ''topic'')) ''fatal''
   \<and> replace_empty (CHR 0x0A) (output' (getDistanceBetweenBranches distancesEnv False ''topic'')) =
       decimalText 2 @ [CHR 0x09] @ decimalText 5
   \<and> (\<exists>d. distances (mRevCache (loadReference distancesEnv (sha_a @ '' refs/heads/topic'') idleLoader))
            = [(''topic'', d)]
          \<and> behindMaster d = 0 \<and> aheadMaster d = 0 \<and> behindOrigin d = 2 \<and> aheadOrigin d = 5)"
proof -
  have len: "length sha_a = 40"
    by (simp add: sha_a_def)
  have b: "(2::nat) < 2 ^ 32 \<and> (5::nat) < 2 ^ 32"
    by simp
  have m: "replace_empty (CHR 0x0A) (output' (getDistanceBetweenBranches distancesEnv True ''main'')) =
       decimalText 2 @ [CHR 0x09] @ decimalText 5"
    by (simp add: distancesEnv_def replace_empty_def decimalText.simps)
  have o: "contains (output' (getDistanceBetweenBranches distancesEnv False ''main'')) ''fatal''"
    by (simp add: distancesEnv_def startsWith_def)
  obtain d where
    "distances (mRevCache (loadReference distancesEnv (sha_a @ '' refs/heads/'' @ ''main'') idleLoader))
       = distances (mRevCache idleLoader) @ [(''main'', d)]"
    "behindMaster d = 2 \<and> aheadMaster d = 5" "behindOrigin d = 0 \<and> aheadOrigin d = 0"
    using local_branch_distances [OF len, of distancesEnv "''main''" idleLoader] m o b
    by blast
  then have main: "\<exists>d. distances (mRevCache (loadReference distancesEnv (sha_a @ '' refs/heads/main'') idleLoader))
            = [(''main'', d)]
          \<and> behindMaster d = 2 \<and> aheadMaster d = 5 \<and> behindOrigin d = 0 \<and> aheadOrigin d = 0"
    by (intro exI [of _ d]) (simp add: idleLoader_def emptyCache_def)
  have m': "contains (output' (getDistanceBetweenBranches distancesEnv True ''topic'')) ''fatal''"
    by (simp add: distancesEnv_def startsWith_def)
  have o': "replace_empty (CHR 0x0A) (output' (getDistanceBetweenBranches distancesEnv False ''topic'')) =
       decimalText 2 @ [CHR 0x09] @ decimalText 5"
    by (simp add: distancesEnv_def replace_empty_def decimalText.simps)
  obtain d' where
    "distances (mRevCache (loadReference distancesEnv (sha_a @ '' refs/heads/'' @ ''topic'') idleLoader))
       = distances (mRevCache idleLoader) @ [(''topic'', d')]"
    "behindMaster d' = 0 \<and> aheadMaster d' = 0" "behindOrigin d' = 2 \<and> aheadOrigin d' = 5"
    using local_branch_distances [OF len, of distancesEnv "''topic''" idleLoader] m' o' b
    by blast
  then have topic: "\<exists>d. distances (mRevCache (loadReference distancesEnv (sha_a @ '' refs/heads/topic'') idleLoader))
            = [(''topic'', d)]
          \<and> behindMaster d = 0 \<and> aheadMaster d = 0 \<and> behindOrigin d = 2 \<and> aheadOrigin d = 5"
    by (intro exI [of _ d']) (simp add: idleLoader_def emptyCache_def)
  from len m o main m' o' topic show ?thesis
    by blast
qed

subsection \<open>Two cycles on one snapshot\<close>

text \<open>
  Claim C9. On a fixed snapshot (the same results of all commands and queries, and the
  same log output \<open>ba\<close>), the cache after a second load cycle holds the same total, the
  same commit records with the same sequence indices, the same pending-changes record,
  the same references and the same distances as after the first. If the second cycle
  leaves the working directory where the first left it, the whole cache, the untracked
  files included, is the same.
\<close>

theorem loadCycle_twice_same_cache:
  "configuredTotal (mRevCache (loadCycle env ba (loadCycle env ba s))) =
     configuredTotal (mRevCache (loadCycle env ba s))
   \<and> commitRecords (mRevCache (loadCycle env ba (loadCycle env ba s))) =
     commitRecords (mRevCache (loadCycle env ba s))
   \<and> wipCommit (mRevCache (loadCycle env ba (loadCycle env ba s))) =
     wipCommit (mRevCache (loadCycle env ba s))
   \<and> references (mRevCache (loadCycle env ba (loadCycle env ba s))) =
     references (mRevCache (loadCycle env ba s))
   \<and> distances (mRevCache (loadCycle env ba (loadCycle env ba s))) =
     distances (mRevCache (loadCycle env ba s))
   \<and> (getWorkingDir (loadCycle env ba (loadCycle env ba s)) = getWorkingDir (loadCycle env ba s)
        \<longrightarrow> mRevCache (loadCycle env ba (loadCycle env ba s)) = mRevCache (loadCycle env ba s))"
  using loadCycle_twice [of env ba s]
  by (simp add: sameLoadedData_def)

theorem loadCycle_twice_same_cache_witness:
  "getWorkingDir (loadCycle exampleEnv exampleBuffer (loadCycle exampleEnv exampleBuffer idleLoader))
     = getWorkingDir (loadCycle exampleEnv exampleBuffer idleLoader)
   \<and> mRevCache (loadCycle exampleEnv exampleBuffer (loadCycle exampleEnv exampleBuffer idleLoader))
     = mRevCache (loadCycle exampleEnv exampleBuffer idleLoader)
   \<and> commitRecords (mRevCache (loadCycle exampleEnv exampleBuffer idleLoader))
     = [(1, ''c1''), (2, ''c2'')]"
proof -
  let ?s1 = "loadCycle exampleEnv exampleBuffer idleLoader"
  have ok: "success (run exampleEnv ''git rev-parse --show-cdup'')"
    by (simp add: exampleEnv_def exampleOutput_def)
  have idle: "\<not> mLocked idleLoader" "getWorkingDir idleLoader \<noteq> []"
    by (simp_all add: idleLoader_def getWorkingDir_def)
  have wd1: "getWorkingDir ?s1 = ''/repo''"
    using loadCycle_started(3) [OF idle ok] by (simp add: exampleEnv_def)
  have idle1: "\<not> mLocked ?s1" "getWorkingDir ?s1 \<noteq> []"
    using loadCycle_started(2) [OF idle ok] wd1 by simp_all
  have wd2: "getWorkingDir (loadCycle exampleEnv exampleBuffer ?s1) = ''/repo''"
    using loadCycle_started(3) [OF idle1 ok] by (simp add: exampleEnv_def)
  have v: "validTokens exampleEnv (split_char (CHR 0x00) exampleBuffer) = [''c1'', ''c2'']"
    by (simp add: validTokens_def exampleBuffer_def exampleEnv_def)
  have records: "commitRecords (mRevCache ?s1) = [(1, ''c1''), (2, ''c2'')]"
    unfolding loadCycle_started(1) [OF idle ok] processRevision_commitRecords v
      loadRepository_started(2) [OF idle ok]
    by (simp add: emptyCache_def upt_rec exampleEnv_def)
  from loadCycle_twice_same_cache [of exampleEnv exampleBuffer idleLoader] wd1 wd2 records
  show ?thesis by simp
qed

section \<open>Further properties of the load request and of the pending changes\<close>

text \<open>
  Property X1. When no load is in progress, the working directory is set and the root
  resolves, \<^verbatim>\<open>loadRepository\<close> returns success with the cache cleared, the flag set, the
  working directory replaced by the absolute path of the directory joined with the
  trimmed offset, and the current branch refreshed; it has run, in this order, the clear
  of the cache, the write of the flag, the resolution command, the branch update and the
  request of the log (for all branches when \<^verbatim>\<open>mShowAll\<close> is set, else for the current
  branch).
\<close>

theorem loadRepository_starts_load:
  assumes "\<not> mLocked s" and "getWorkingDir s \<noteq> []"
    and "success (run env ''git rev-parse --show-cdup'')"
  shows "fst (loadRepository env s)
       \<and> mLocked (snd (loadRepository env s))
       \<and> mRevCache (snd (loadRepository env s)) = emptyCache
       \<and> getWorkingDir (snd (loadRepository env s)) =
           absolutePath env (getWorkingDir s @ ''/''
             @ trimmed (output' (run env ''git rev-parse --show-cdup'')))
       \<and> getCurrentBranch (snd (loadRepository env s)) = headBranch env
       \<and> trace (snd (loadRepository env s)) =
           trace s @ [Cache CacheClear, Locked True, Run ''git rev-parse --show-cdup'',
             UpdateCurrentBranch,
             Request (''git log --date-order --no-color --log-size --parents --boundary -z --pretty=format:''
               @ GIT_LOG_FORMAT @ (if mShowAll s then ''--all'' else headBranch env))]"
  using assms
  by (simp add: loadRepository_def configureRepoDirectory_def Let_def cacheCall_def
      setLocked_def gitRun_def setWorkingDir_def updateCurrentBranch_def requestRevisions_def
      record_action_def getWorkingDir_def getCurrentBranch_def)

theorem loadRepository_starts_load_witness:
  "\<not> mLocked idleLoader \<and> getWorkingDir idleLoader \<noteq> []
   \<and> success (run exampleEnv ''git rev-parse --show-cdup'')
   \<and> fst (loadRepository exampleEnv idleLoader)
   \<and> mLocked (snd (loadRepository exampleEnv idleLoader))
   \<and> getWorkingDir (snd (loadRepository exampleEnv idleLoader)) = ''/repo''
   \<and> trace (snd (loadRepository exampleEnv idleLoader)) =
       [Cache CacheClear, Locked True, Run ''git rev-parse --show-cdup'', UpdateCurrentBranch,
        Request (''git log --date-order --no-color --log-size --parents --boundary -z --pretty=format:''
                 @ GIT_LOG_FORMAT @ ''--all'')]"
proof -
  have h: "\<not> mLocked idleLoader" "getWorkingDir idleLoader \<noteq> []"
      "success (run exampleEnv ''git rev-parse --show-cdup'')"
    by (simp_all add: idleLoader_def getWorkingDir_def exampleEnv_def exampleOutput_def)
  have e: "absolutePath exampleEnv p = ''/repo''" for p
    by (simp add: exampleEnv_def)
  have i: "mShowAll idleLoader" "trace idleLoader = []"
    by (simp_all add: idleLoader_def)
  from h loadRepository_starts_load [OF h] show ?thesis
    by (simp add: e i)
qed

text \<open>
  Property X2. With no working directory configured, \<^verbatim>\<open>loadRepository\<close> returns failure
  and changes nothing.
\<close>

theorem loadRepository_without_working_directory:
  "getWorkingDir s = [] \<Longrightarrow> loadRepository env s = (False, s)"
  by (simp add: loadRepository_def)

theorem loadRepository_without_working_directory_witness:
  "getWorkingDir (setWorkingDir [] idleLoader) = []
   \<and> loadRepository exampleEnv (setWorkingDir [] idleLoader) = (False, setWorkingDir [] idleLoader)"
proof -
  have h: "getWorkingDir (setWorkingDir [] idleLoader) = []"
    by (simp add: getWorkingDir_def setWorkingDir_def)
  from h loadRepository_without_working_directory [OF h] show ?thesis by simp
qed

text \<open>
  Property X3. When the root resolution fails, \<^verbatim>\<open>loadRepository\<close> leaves the working
  directory as it was; the cache has been cleared, and no log is requested.
\<close>

theorem loadRepository_not_a_repository_effect:
  assumes "\<not> mLocked s" and "getWorkingDir s \<noteq> []"
    and "\<not> success (run env ''git rev-parse --show-cdup'')"
  shows "getWorkingDir (snd (loadRepository env s)) = getWorkingDir s
       \<and> mRevCache (snd (loadRepository env s)) = emptyCache
       \<and> trace (snd (loadRepository env s)) =
           trace s @ [Cache CacheClear, Locked True, Run ''git rev-parse --show-cdup'']"
  by (simp add: loadRepository_not_a_repository [OF assms] getWorkingDir_def)

theorem loadRepository_not_a_repository_effect_witness:
  "\<not> mLocked idleLoader \<and> getWorkingDir idleLoader \<noteq> []
   \<and> \<not> success (run notRepositoryEnv ''git rev-parse --show-cdup'')
   \<and> getWorkingDir (snd (loadRepository notRepositoryEnv idleLoader)) = ''/repo''
   \<and> trace (snd (loadRepository notRepositoryEnv idleLoader)) =
        [Cache CacheClear, Locked True, Run ''git rev-parse --show-cdup'']"
proof -
  have h: "\<not> mLocked idleLoader" "getWorkingDir idleLoader \<noteq> []"
     "\<not> success (run notRepositoryEnv ''git rev-parse --show-cdup'')"
    by (simp_all add: idleLoader_def getWorkingDir_def notRepositoryEnv_def)
  have i: "getWorkingDir idleLoader = ''/repo''" "trace idleLoader = []"
    by (simp_all add: idleLoader_def getWorkingDir_def)
  from h loadRepository_not_a_repository_effect [OF h] show ?thesis
    by (simp add: i)
qed

text \<open>
  Property X4. \<^verbatim>\<open>updateWipRevision\<close> always stores the untracked files. When the HEAD
  lookup succeeds it stores the pending-changes record with the trimmed HEAD hash and the
  raw outputs of the two \<^verbatim>\<open>diff-index\<close> commands, the empty text standing for a command
  that failed; when the lookup fails it leaves the record as it was.
\<close>

theorem updateWipRevision_stores:
  "untrackedFiles (mRevCache (updateWipRevision env s)) = fst (getUntrackedFiles env s)
   \<and> (\<not> success (run env ''git rev-parse --revs-only HEAD'') \<longrightarrow>
        wipCommit (mRevCache (updateWipRevision env s)) = wipCommit (mRevCache s))
   \<and> (success (run env ''git rev-parse --revs-only HEAD'') \<longrightarrow>
        (\<exists>diffIndex diffIndexCached.
           wipCommit (mRevCache (updateWipRevision env s)) =
             Some (trimmed (output' (run env ''git rev-parse --revs-only HEAD'')),
                   diffIndex, diffIndexCached)
         \<and> diffIndex =
             (let r = run env (''git diff-index ''
                        @ trimmed (output' (run env ''git rev-parse --revs-only HEAD'')))
              in if success r then output' r else [])
         \<and> diffIndexCached =
             (let r = run env (''git diff-index --cached ''
                        @ trimmed (output' (run env ''git rev-parse --revs-only HEAD'')))
              in if success r then output' r else [])))"
  by (simp add: updateWipRevision_def getUntrackedFiles_def gitRun_def cacheCall_def
      record_action_def Let_def untrackedFilesCommand_def getWorkingDir_def)

theorem updateWipRevision_stores_witness:
  "success (run exampleEnv ''git rev-parse --revs-only HEAD'')
   \<and> \<not> success (run notRepositoryEnv ''git rev-parse --revs-only HEAD'')
   \<and> wipCommit (mRevCache (updateWipRevision exampleEnv idleLoader)) = Some (sha_a, [], [])
   \<and> wipCommit (mRevCache (updateWipRevision notRepositoryEnv idleLoader)) = None"
proof -
  have h: "success (run exampleEnv ''git rev-parse --revs-only HEAD'')"
      "\<not> success (run notRepositoryEnv ''git rev-parse --revs-only HEAD'')"
    by (simp_all add: exampleEnv_def exampleOutput_def notRepositoryEnv_def)
  have p: "trimmed (output' (run exampleEnv ''git rev-parse --revs-only HEAD'')) = sha_a"
    by (simp add: exampleEnv_def exampleOutput_def trimmed_def sha_a_def isSpace_def)
  have d: "\<not> success (run exampleEnv (''git diff-index '' @ sha_a))"
      "\<not> success (run exampleEnv (''git diff-index --cached '' @ sha_a))"
    by (simp_all add: exampleEnv_def exampleOutput_def sha_a_def)
  have n: "wipCommit (mRevCache idleLoader) = None"
    by (simp add: idleLoader_def emptyCache_def)
  from h d updateWipRevision_stores [of exampleEnv idleLoader]
    updateWipRevision_stores [of notRepositoryEnv idleLoader]
  show ?thesis
    by (simp add: p n Let_def)
qed

lemma loadReferenceList_fold:
  "loadReferenceList env referencesList s = fold (loadReference env) referencesList s"
  by (induction referencesList arbitrary: s) simp_all

text \<open>
  Property X5. When \<^verbatim>\<open>git show-ref -d\<close> fails, \<^verbatim>\<open>loadReferences\<close> does nothing more than
  run it. When it succeeds, \<^verbatim>\<open>loadReferences\<close> asks for the last commit and then runs the
  body of its loop on each non-empty line of the output, in order.
\<close>

theorem loadReferences_line_by_line:
  "(\<not> success (run env ''git show-ref -d'') \<longrightarrow>
      loadReferences env s = record_action (Run ''git show-ref -d'') s)
   \<and> (success (run env ''git show-ref -d'') \<longrightarrow>
      loadReferences env s =
        fold (loadReference env)
          (filter (\<lambda>line. line \<noteq> [])
             (split_char (CHR 0x0A) (output' (run env ''git show-ref -d''))))
          (record_action LastCommit (record_action (Run ''git show-ref -d'') s)))"
  by (simp add: loadReferences_def gitRun_def Let_def loadReferenceList_fold split_skip_empty_def)

theorem loadReferences_line_by_line_witness:
  "\<not> success (run exampleEnv ''git show-ref -d'')
   \<and> loadReferences exampleEnv idleLoader = record_action (Run ''git show-ref -d'') idleLoader
   \<and> success (run (listingEnv (sha_a @ '' refs/heads/main'' @ [CHR 0x0A, CHR 0x0A])) ''git show-ref -d'')
   \<and> loadReferences (listingEnv (sha_a @ '' refs/heads/main'' @ [CHR 0x0A, CHR 0x0A])) idleLoader =
       loadReference (listingEnv (sha_a @ '' refs/heads/main'' @ [CHR 0x0A, CHR 0x0A]))
         (sha_a @ '' refs/heads/main'')
         (record_action LastCommit (record_action (Run ''git show-ref -d'') idleLoader))"
proof -
  let ?env = "listingEnv (sha_a @ '' refs/heads/main'' @ [CHR 0x0A, CHR 0x0A])"
  have no: "\<not> success (run exampleEnv ''git show-ref -d'')"
    by (simp add: exampleEnv_def exampleOutput_def)
  have yes: "success (run ?env ''git show-ref -d'')"
    by (simp add: listingEnv_def)
  have lines: "filter (\<lambda>line. line \<noteq> [])
      (split_char (CHR 0x0A) (output' (run ?env ''git show-ref -d''))) = [sha_a @ '' refs/heads/main'']"
    by (simp add: listingEnv_def sha_a_def)
  from no yes loadReferences_line_by_line [of exampleEnv idleLoader]
    loadReferences_line_by_line [of ?env idleLoader]
  show ?thesis
    by (simp only: lines fold_simps id_apply comp_apply simp_thms)
qed

end
